theory Spec2Isabelle
  imports Complex_Main "HOL-Library.Char_ord" "HOL-Library.List_Lexorder" "HOL-Library.Multiset"
begin

section \<open>Call-wrapping policies of decorators.py\<close>

text \<open>
  The decorators of \<^verbatim>\<open>decorators.py\<close> wrap an arbitrary callable. The embedding
  makes every effect of a wrapper call explicit:
  \<^item> a raised exception is the \<open>Inl\<close> branch of a sum, a returned value the \<open>Inr\<close> branch;
  \<^item> the wrapped callable is a state-passing function over its own world \<open>'w\<close>, so it
    may answer differently on every invocation;
  \<^item> the value \<^verbatim>\<open>time.time()\<close> returns at the start of a wrapper call is the
    parameter \<open>current_time\<close>; timestamps and durations are real numbers (the source
    uses floats; rounding is not modelled);
  \<^item> each closure variable or module-level store a wrapper mutates
    (\<^verbatim>\<open>storage\<close>, \<^verbatim>\<open>call_history\<close>, \<^verbatim>\<open>cache_store\<close>, \<^verbatim>\<open>cache_timestamps\<close>)
    is passed in and returned updated.
\<close>

subsection \<open>Exceptions\<close>

text \<open>The exception classes that occur, with Python's built-in hierarchy.\<close>

datatype exc_class =
    BaseExceptionC | KeyboardInterruptC | ExceptionC
  | ValueErrorC | TypeErrorC | AttributeErrorC | RuntimeErrorC
  | LookupErrorC | IndexErrorC | KeyErrorC
  | OSErrorC | ConnectionErrorC

fun mro :: "exc_class \<Rightarrow> exc_class list" where
  "mro BaseExceptionC = [BaseExceptionC]"
| "mro KeyboardInterruptC = [KeyboardInterruptC, BaseExceptionC]"
| "mro ExceptionC = [ExceptionC, BaseExceptionC]"
| "mro ValueErrorC = [ValueErrorC, ExceptionC, BaseExceptionC]"
| "mro TypeErrorC = [TypeErrorC, ExceptionC, BaseExceptionC]"
| "mro AttributeErrorC = [AttributeErrorC, ExceptionC, BaseExceptionC]"
| "mro RuntimeErrorC = [RuntimeErrorC, ExceptionC, BaseExceptionC]"
| "mro LookupErrorC = [LookupErrorC, ExceptionC, BaseExceptionC]"
| "mro IndexErrorC = [IndexErrorC, LookupErrorC, ExceptionC, BaseExceptionC]"
| "mro KeyErrorC = [KeyErrorC, LookupErrorC, ExceptionC, BaseExceptionC]"
| "mro OSErrorC = [OSErrorC, ExceptionC, BaseExceptionC]"
| "mro ConnectionErrorC = [ConnectionErrorC, OSErrorC, ExceptionC, BaseExceptionC]"

text \<open>
  The argument of an exception. The messages the decorators build are f-strings; the
  model keeps the interpolated values (function name, wait time, parameter name, rendered
  value) instead of the rendered text.
\<close>

datatype exc_arg =
    RateLimitMsg string real
  | CircuitOpenMsg string real
  | ValidationMsg string string
  | NoAttributeMsg string string
  | TextMsg string

datatype exn = Exn (exn_class: exc_class) (exn_arg: exc_arg)

text \<open>\<^verbatim>\<open>except exceptions as e\<close>: the clause catches \<open>e\<close> when it is an instance of a listed class.\<close>

definition isinstance_exn :: "exn \<Rightarrow> exc_class list \<Rightarrow> bool" where
  "isinstance_exn e exceptions = (\<exists>c \<in> set exceptions. c \<in> set (mro (exn_class e)))"

subsection \<open>The wrapped callable and its environment\<close>

type_synonym ('v, 'w, 'r) pyfun = "'v list \<Rightarrow> (string \<times> 'v) list \<Rightarrow> 'w \<Rightarrow> (exn + 'r) \<times> 'w"

text \<open>
  \<open>world\<close> is the state of the wrapped callable; \<open>calls\<close> counts its invocations and
  \<open>sleeps\<close> lists the durations passed to \<^verbatim>\<open>time.sleep\<close>, both for observation only.
\<close>

record 'w env =
  world :: 'w
  calls :: nat
  sleeps :: "real list"

definition invoke :: "('v, 'w, 'r) pyfun \<Rightarrow> 'v list \<Rightarrow> (string \<times> 'v) list \<Rightarrow> 'w env \<Rightarrow> (exn + 'r) \<times> 'w env" where
  "invoke func args kwargs env =
     (case func args kwargs (world env) of
        (res, w') \<Rightarrow> (res, env\<lparr>world := w', calls := calls env + 1\<rparr>))"

text \<open>\<^verbatim>\<open>time.sleep\<close> raises ValueError on a negative duration.\<close>

definition time_sleep :: "real \<Rightarrow> 'w env \<Rightarrow> exn + 'w env" where
  "time_sleep d env =
     (if d < 0 then Inl (Exn ValueErrorC (TextMsg ''sleep length must be non-negative''))
      else Inr (env\<lparr>sleeps := sleeps env @ [d]\<rparr>))"

subsection \<open>circuit_breaker\<close>

datatype CircuitState = CLOSED | OPEN | HALF_OPEN

record cb_storage =
  state :: CircuitState
  failure_count :: int
  last_failure_time :: real
  success_count :: int

text \<open>The four \<^verbatim>\<open>storage.setdefault\<close> calls of the decorator on a fresh store.\<close>

definition cb_init :: cb_storage where
  "cb_init = \<lparr>state = CLOSED, failure_count = 0, last_failure_time = 0, success_count = 0\<rparr>"

text \<open>
  One call of the wrapper (lines 292-330). \<open>state0\<close> is the local variable
  \<^verbatim>\<open>state\<close>, read once before the Open check and never assigned again.
\<close>

definition circuit_breaker_wrapper ::
  "int \<Rightarrow> real \<Rightarrow> exc_class list \<Rightarrow> string \<Rightarrow> ('v, 'w, 'r) pyfun \<Rightarrow> real \<Rightarrow> 'v list \<Rightarrow> (string \<times> 'v) list
     \<Rightarrow> cb_storage \<Rightarrow> 'w env \<Rightarrow> (exn + 'r) \<times> cb_storage \<times> 'w env" where
  "circuit_breaker_wrapper failure_threshold recovery_timeout exceptions fname func current_time args kwargs storage env =
     (let state0 = state storage in
      if state0 = OPEN \<and> \<not> (current_time - last_failure_time storage \<ge> recovery_timeout) then
        (let wait_time = recovery_timeout - (current_time - last_failure_time storage)
         in (Inl (Exn ExceptionC (CircuitOpenMsg fname wait_time)), storage, env))
      else
        (let storage1 = (if state0 = OPEN then storage\<lparr>state := HALF_OPEN, success_count := 0\<rparr> else storage)
         in case invoke func args kwargs env of
              (Inr result, env') \<Rightarrow>
                (let storage2 =
                       (if state0 = HALF_OPEN then
                          (let s = storage1\<lparr>success_count := success_count storage1 + 1\<rparr>
                           in if success_count s \<ge> 2 then s\<lparr>state := CLOSED, failure_count := 0\<rparr> else s)
                        else storage1);
                     storage3 = (if state0 = CLOSED then storage2\<lparr>failure_count := 0\<rparr> else storage2)
                 in (Inr result, storage3, env'))
            | (Inl e, env') \<Rightarrow>
                if isinstance_exn e exceptions then
                  (let s = storage1\<lparr>failure_count := failure_count storage1 + 1, last_failure_time := current_time\<rparr>;
                       storage2 = (if failure_count s \<ge> failure_threshold then s\<lparr>state := OPEN\<rparr> else s)
                   in (Inl e, storage2, env'))
                else (Inl e, storage1, env')))"

text \<open>Repeated calls of one wrapped operation at the given clock readings, results in order.\<close>

fun cb_run ::
  "int \<Rightarrow> real \<Rightarrow> exc_class list \<Rightarrow> string \<Rightarrow> ('v, 'w, 'r) pyfun \<Rightarrow> 'v list \<Rightarrow> (string \<times> 'v) list
     \<Rightarrow> real list \<Rightarrow> cb_storage \<Rightarrow> 'w env \<Rightarrow> (exn + 'r) list \<times> cb_storage \<times> 'w env" where
  "cb_run failure_threshold recovery_timeout exceptions fname func args kwargs [] storage env = ([], storage, env)"
| "cb_run failure_threshold recovery_timeout exceptions fname func args kwargs (t # ts) storage env =
     (case circuit_breaker_wrapper failure_threshold recovery_timeout exceptions fname func t args kwargs storage env of
        (r, storage', env') \<Rightarrow>
          (case cb_run failure_threshold recovery_timeout exceptions fname func args kwargs ts storage' env' of
             (rs, storage'', env'') \<Rightarrow> (r # rs, storage'', env'')))"

text \<open>
  The stores a breaker can be in: the initial one, and whatever a wrapper call leaves,
  whatever the arguments, the clock and the state of the wrapped callable.
\<close>

inductive cb_reachable ::
  "int \<Rightarrow> real \<Rightarrow> exc_class list \<Rightarrow> string \<Rightarrow> ('v, 'w, 'r) pyfun \<Rightarrow> cb_storage \<Rightarrow> bool"
  for failure_threshold recovery_timeout exceptions fname func where
  cb_reachable_init: "cb_reachable failure_threshold recovery_timeout exceptions fname func cb_init"
| cb_reachable_call:
    "cb_reachable failure_threshold recovery_timeout exceptions fname func storage \<Longrightarrow>
     circuit_breaker_wrapper failure_threshold recovery_timeout exceptions fname func current_time args kwargs storage env
       = (r, storage', env') \<Longrightarrow>
     cb_reachable failure_threshold recovery_timeout exceptions fname func storage'"

text \<open>
  A decorated function is itself a callable, and decorators stack. Seen from an outer
  wrapper, a breaker-wrapped function carries its store and environment as its world;
  the clock reading of the inner call is \<open>current_time\<close>.
\<close>

definition circuit_breaker_decorated ::
  "int \<Rightarrow> real \<Rightarrow> exc_class list \<Rightarrow> string \<Rightarrow> ('v, 'w, 'r) pyfun \<Rightarrow> real \<Rightarrow> ('v, cb_storage \<times> 'w env, 'r) pyfun" where
  "circuit_breaker_decorated failure_threshold recovery_timeout exceptions fname func current_time args kwargs w =
     (case circuit_breaker_wrapper failure_threshold recovery_timeout exceptions fname func current_time args kwargs (fst w) (snd w) of
        (r, storage', env') \<Rightarrow> (r, (storage', env')))"

subsection \<open>rate_limit\<close>

text \<open>
  One call of the wrapper (lines 210-224) on the history list of this function.
  \<^verbatim>\<open>call_history[0]\<close> raises IndexError on an empty list.
\<close>

definition rate_limit_wrapper ::
  "int \<Rightarrow> real \<Rightarrow> string \<Rightarrow> ('v, 'w, 'r) pyfun \<Rightarrow> real \<Rightarrow> 'v list \<Rightarrow> (string \<times> 'v) list
     \<Rightarrow> real list \<Rightarrow> 'w env \<Rightarrow> (exn + 'r) \<times> real list \<times> 'w env" where
  "rate_limit_wrapper max_calls period_seconds fname func current_time args kwargs call_history env =
     (let call_history1 = filter (\<lambda>t. current_time - t < period_seconds) call_history in
      if int (length call_history1) \<ge> max_calls then
        (case call_history1 of
           [] \<Rightarrow> (Inl (Exn IndexErrorC (TextMsg ''list index out of range'')), call_history1, env)
         | t0 # _ \<Rightarrow>
             (let wait_time = period_seconds - (current_time - t0)
              in (Inl (Exn ExceptionC (RateLimitMsg fname wait_time)), call_history1, env)))
      else
        (case invoke func args kwargs env of
           (r, env') \<Rightarrow> (r, call_history1 @ [current_time], env')))"

fun rl_run ::
  "int \<Rightarrow> real \<Rightarrow> string \<Rightarrow> ('v, 'w, 'r) pyfun \<Rightarrow> 'v list \<Rightarrow> (string \<times> 'v) list
     \<Rightarrow> real list \<Rightarrow> real list \<Rightarrow> 'w env \<Rightarrow> (exn + 'r) list \<times> real list \<times> 'w env" where
  "rl_run max_calls period_seconds fname func args kwargs [] call_history env = ([], call_history, env)"
| "rl_run max_calls period_seconds fname func args kwargs (t # ts) call_history env =
     (case rate_limit_wrapper max_calls period_seconds fname func t args kwargs call_history env of
        (r, call_history', env') \<Rightarrow>
          (case rl_run max_calls period_seconds fname func args kwargs ts call_history' env' of
             (rs, call_history'', env'') \<Rightarrow> (r # rs, call_history'', env'')))"

text \<open>
  The clock readings of the calls of such a run that were let through, in order: the
  calls that invoked the wrapped operation.
\<close>

fun rl_admitted ::
  "int \<Rightarrow> real \<Rightarrow> string \<Rightarrow> ('v, 'w, 'r) pyfun \<Rightarrow> 'v list \<Rightarrow> (string \<times> 'v) list
     \<Rightarrow> real list \<Rightarrow> real list \<Rightarrow> 'w env \<Rightarrow> real list" where
  "rl_admitted max_calls period_seconds fname func args kwargs [] call_history env = []"
| "rl_admitted max_calls period_seconds fname func args kwargs (t # ts) call_history env =
     (case rate_limit_wrapper max_calls period_seconds fname func t args kwargs call_history env of
        (r, call_history', env') \<Rightarrow>
          (if calls env' = calls env then [] else [t])
          @ rl_admitted max_calls period_seconds fname func args kwargs ts call_history' env')"

subsection \<open>retry\<close>

text \<open>
  The \<^verbatim>\<open>for attempt in range(1, max_attempts + 1)\<close> loop (lines 130-145), by recursion on
  the attempts still to run; \<^verbatim>\<open>raise last_exception\<close> with \<^verbatim>\<open>None\<close> is a TypeError,
  and an exception of \<^verbatim>\<open>time.sleep\<close> leaves the handler and the wrapper.
\<close>

fun retry_loop ::
  "int \<Rightarrow> real \<Rightarrow> exc_class list \<Rightarrow> ('v, 'w, 'r) pyfun \<Rightarrow> 'v list \<Rightarrow> (string \<times> 'v) list
     \<Rightarrow> int list \<Rightarrow> exn option \<Rightarrow> real \<Rightarrow> 'w env \<Rightarrow> (exn + 'r) \<times> 'w env" where
  "retry_loop max_attempts backoff exceptions func args kwargs [] last_exception current_delay env =
     (case last_exception of
        None \<Rightarrow> (Inl (Exn TypeErrorC (TextMsg ''exceptions must derive from BaseException'')), env)
      | Some e \<Rightarrow> (Inl e, env))"
| "retry_loop max_attempts backoff exceptions func args kwargs (attempt # rest) last_exception current_delay env =
     (case invoke func args kwargs env of
        (Inr result, env') \<Rightarrow> (Inr result, env')
      | (Inl e, env') \<Rightarrow>
          if isinstance_exn e exceptions then
            (if attempt < max_attempts then
               (case time_sleep current_delay env' of
                  Inl err \<Rightarrow> (Inl err, env')
                | Inr env'' \<Rightarrow>
                    retry_loop max_attempts backoff exceptions func args kwargs rest (Some e)
                      (current_delay * backoff) env'')
             else
               retry_loop max_attempts backoff exceptions func args kwargs rest (Some e) current_delay env')
          else (Inl e, env'))"

definition retry_wrapper ::
  "int \<Rightarrow> real \<Rightarrow> real \<Rightarrow> exc_class list \<Rightarrow> ('v, 'w, 'r) pyfun \<Rightarrow> 'v list \<Rightarrow> (string \<times> 'v) list
     \<Rightarrow> 'w env \<Rightarrow> (exn + 'r) \<times> 'w env" where
  "retry_wrapper max_attempts delay backoff exceptions func args kwargs env =
     retry_loop max_attempts backoff exceptions func args kwargs [1..max_attempts] None delay env"

text \<open>The world after \<open>n\<close> invocations of the callable, and the outcome of the next one.\<close>

fun world_after :: "('v, 'w, 'r) pyfun \<Rightarrow> 'v list \<Rightarrow> (string \<times> 'v) list \<Rightarrow> nat \<Rightarrow> 'w \<Rightarrow> 'w" where
  "world_after func args kwargs 0 w = w"
| "world_after func args kwargs (Suc n) w = world_after func args kwargs n (snd (func args kwargs w))"

subsection \<open>cache\<close>

text \<open>
  \<^verbatim>\<open>str(args) + str(sorted(kwargs.items()))\<close> (line 170). \<open>repr\<close> renders one argument
  value. Keyword names are distinct, so sorting the items compares names only. A name is
  rendered between single quotes, as Python does for an identifier.
\<close>

fun join :: "string \<Rightarrow> string list \<Rightarrow> string" where
  "join sep [] = []"
| "join sep [x] = x"
| "join sep (x # y # ys) = x @ sep @ join sep (y # ys)"

definition str_tuple :: "('v \<Rightarrow> string) \<Rightarrow> 'v list \<Rightarrow> string" where
  "str_tuple repr xs =
     (case xs of
        [x] \<Rightarrow> ''('' @ repr x @ '',)''
      | _ \<Rightarrow> ''('' @ join '', '' (map repr xs) @ '')'')"

definition repr_name :: "string \<Rightarrow> string" where
  "repr_name k = [CHR 0x27] @ k @ [CHR 0x27]"

definition str_items :: "('v \<Rightarrow> string) \<Rightarrow> (string \<times> 'v) list \<Rightarrow> string" where
  "str_items repr items =
     ''['' @ join '', '' (map (\<lambda>(k, v). ''('' @ repr_name k @ '', '' @ repr v @ '')'') items) @ '']''"

definition sorted_items :: "(string \<times> 'v) list \<Rightarrow> (string \<times> 'v) list" where
  "sorted_items kwargs = sort_key fst kwargs"

definition cache_key :: "('v \<Rightarrow> string) \<Rightarrow> 'v list \<Rightarrow> (string \<times> 'v) list \<Rightarrow> string" where
  "cache_key repr args kwargs = str_tuple repr args @ str_items repr (sorted_items kwargs)"

record 'r cache_state =
  cache_store :: "string \<rightharpoonup> 'r"
  cache_timestamps :: "string \<rightharpoonup> real"

definition cache_empty :: "'r cache_state" where
  "cache_empty = \<lparr>cache_store = Map.empty, cache_timestamps = Map.empty\<rparr>"

text \<open>Lines 181-185: compute, store value and timestamp, return; a raise stores nothing.\<close>

definition cache_compute ::
  "('v, 'w, 'r) pyfun \<Rightarrow> real \<Rightarrow> 'v list \<Rightarrow> (string \<times> 'v) list \<Rightarrow> string
     \<Rightarrow> 'r cache_state \<Rightarrow> 'w env \<Rightarrow> (exn + 'r) \<times> 'r cache_state \<times> 'w env" where
  "cache_compute func current_time args kwargs key cs env =
     (case invoke func args kwargs env of
        (Inr result, env') \<Rightarrow>
          (Inr result,
           cs\<lparr>cache_store := (cache_store cs)(key \<mapsto> result),
              cache_timestamps := (cache_timestamps cs)(key \<mapsto> current_time)\<rparr>,
           env')
      | (Inl e, env') \<Rightarrow> (Inl e, cs, env'))"

text \<open>One call of the wrapper (lines 169-185). A key without a timestamp is a KeyError.\<close>

definition cache_wrapper ::
  "real \<Rightarrow> ('v \<Rightarrow> string) \<Rightarrow> ('v, 'w, 'r) pyfun \<Rightarrow> real \<Rightarrow> 'v list \<Rightarrow> (string \<times> 'v) list
     \<Rightarrow> 'r cache_state \<Rightarrow> 'w env \<Rightarrow> (exn + 'r) \<times> 'r cache_state \<times> 'w env" where
  "cache_wrapper ttl_seconds repr func current_time args kwargs cs env =
     (let key = cache_key repr args kwargs in
      case cache_store cs key of
        Some stored \<Rightarrow>
          (case cache_timestamps cs key of
             None \<Rightarrow> (Inl (Exn KeyErrorC (TextMsg key)), cs, env)
           | Some stored_at \<Rightarrow>
               if current_time - stored_at < ttl_seconds then (Inr stored, cs, env)
               else
                 cache_compute func current_time args kwargs key
                   (cs\<lparr>cache_store := (cache_store cs)(key := None),
                       cache_timestamps := (cache_timestamps cs)(key := None)\<rparr>) env)
      | None \<Rightarrow> cache_compute func current_time args kwargs key cs env)"

text \<open>Repeated calls, each with its clock reading and arguments.\<close>

fun cache_run ::
  "real \<Rightarrow> ('v \<Rightarrow> string) \<Rightarrow> ('v, 'w, 'r) pyfun \<Rightarrow> (real \<times> 'v list \<times> (string \<times> 'v) list) list
     \<Rightarrow> 'r cache_state \<Rightarrow> 'w env \<Rightarrow> (exn + 'r) list \<times> 'r cache_state \<times> 'w env" where
  "cache_run ttl_seconds repr func [] cs env = ([], cs, env)"
| "cache_run ttl_seconds repr func (c # cs') cs env =
     (case cache_wrapper ttl_seconds repr func (fst c) (fst (snd c)) (snd (snd c)) cs env of
        (r, cs1, env1) \<Rightarrow>
          (case cache_run ttl_seconds repr func cs' cs1 env1 of
             (rs, cs2, env2) \<Rightarrow> (r # rs, cs2, env2)))"

text \<open>The same calls made on the undecorated callable.\<close>

fun call_run ::
  "('v, 'w, 'r) pyfun \<Rightarrow> (real \<times> 'v list \<times> (string \<times> 'v) list) list \<Rightarrow> 'w env \<Rightarrow> (exn + 'r) list \<times> 'w env" where
  "call_run func [] env = ([], env)"
| "call_run func (c # cl) env =
     (case invoke func (fst (snd c)) (snd (snd c)) env of
        (r, env1) \<Rightarrow>
          (case call_run func cl env1 of
             (rs, env2) \<Rightarrow> (r # rs, env2)))"

subsection \<open>validate_input\<close>

text \<open>
  The wrapper starts with \<^verbatim>\<open>functools.signature(func)\<close> (line 246). The module
  \<^verbatim>\<open>functools\<close> of the standard library defines the names below (and private helpers,
  whose names start with an underscore) and no \<^verbatim>\<open>signature\<close>: that function lives in
  \<^verbatim>\<open>inspect\<close>, which decorators.py does not import. Looking up a name a module does not
  define raises AttributeError.
\<close>

definition functools_names :: "string list" where
  "functools_names =
     [''update_wrapper'', ''wraps'', ''WRAPPER_ASSIGNMENTS'', ''WRAPPER_UPDATES'',
      ''total_ordering'', ''cache'', ''cmp_to_key'', ''lru_cache'', ''reduce'', ''partial'',
      ''partialmethod'', ''singledispatch'', ''singledispatchmethod'', ''cached_property'',
      ''Placeholder'', ''namedtuple'', ''get_cache_token'', ''recursive_repr'', ''RLock'',
      ''GenericAlias'']"

definition functools_getattr :: "string \<Rightarrow> exn + string" where
  "functools_getattr name =
     (if name \<in> set functools_names then Inr name
      else Inl (Exn AttributeErrorC (NoAttributeMsg ''functools'' name)))"

text \<open>
  A signature of positional-or-keyword parameters, each with its default if it has one,
  and \<^verbatim>\<open>bind\<close> followed by \<^verbatim>\<open>apply_defaults\<close> on it: positional arguments first, then
  the remaining parameters from the keywords or their defaults.
\<close>

type_synonym 'v signature = "(string \<times> 'v option) list"

fun bind_positional :: "'v signature \<Rightarrow> 'v list \<Rightarrow> exn + ((string \<times> 'v) list \<times> 'v signature)" where
  "bind_positional params [] = Inr ([], params)"
| "bind_positional [] (a # as) = Inl (Exn TypeErrorC (TextMsg ''too many positional arguments''))"
| "bind_positional (p # params) (a # as) =
     (case bind_positional params as of
        Inl e \<Rightarrow> Inl e
      | Inr (bound, rest) \<Rightarrow> Inr ((fst p, a) # bound, rest))"

fun bind_keywords :: "'v signature \<Rightarrow> (string \<times> 'v) list \<Rightarrow> exn + (string \<times> 'v) list" where
  "bind_keywords [] kwargs = Inr []"
| "bind_keywords (p # params) kwargs =
     (case (case map_of kwargs (fst p) of Some v \<Rightarrow> Some v | None \<Rightarrow> snd p) of
        None \<Rightarrow> Inl (Exn TypeErrorC (TextMsg (''missing a required argument: '' @ repr_name (fst p))))
      | Some v \<Rightarrow>
          (case bind_keywords params kwargs of
             Inl e \<Rightarrow> Inl e
           | Inr bound \<Rightarrow> Inr ((fst p, v) # bound)))"

definition signature_bind :: "'v signature \<Rightarrow> 'v list \<Rightarrow> (string \<times> 'v) list \<Rightarrow> exn + (string \<times> 'v) list" where
  "signature_bind params args kwargs =
     (case bind_positional params args of
        Inl e \<Rightarrow> Inl e
      | Inr (bound, rest) \<Rightarrow>
          (case filter (\<lambda>k. k \<notin> set (map fst rest)) (map fst kwargs) of
             k # _ \<Rightarrow> Inl (Exn TypeErrorC (TextMsg (''got an unexpected keyword argument '' @ repr_name k)))
           | [] \<Rightarrow>
               (case bind_keywords rest kwargs of
                  Inl e \<Rightarrow> Inl e
                | Inr bound' \<Rightarrow> Inr (bound @ bound'))))"

text \<open>The loop over \<^verbatim>\<open>validators.items()\<close> (lines 250-256); \<open>str_of\<close> renders the value.\<close>

fun check_validators ::
  "('v \<Rightarrow> string) \<Rightarrow> (string \<times> ('v \<Rightarrow> bool)) list \<Rightarrow> (string \<times> 'v) list \<Rightarrow> exn option" where
  "check_validators str_of [] arguments = None"
| "check_validators str_of (v # validators) arguments =
     (case map_of arguments (fst v) of
        Some val \<Rightarrow>
          if \<not> (snd v) val then Some (Exn ValueErrorC (ValidationMsg (fst v) (str_of val)))
          else check_validators str_of validators arguments
      | None \<Rightarrow> check_validators str_of validators arguments)"

text \<open>One call of the wrapper (lines 245-258); \<open>params\<close> are the declared parameters of \<open>func\<close>.\<close>

definition validate_input_wrapper ::
  "(string \<times> ('v \<Rightarrow> bool)) list \<Rightarrow> ('v \<Rightarrow> string) \<Rightarrow> 'v signature \<Rightarrow> ('v, 'w, 'r) pyfun
     \<Rightarrow> 'v list \<Rightarrow> (string \<times> 'v) list \<Rightarrow> 'w env \<Rightarrow> (exn + 'r) \<times> 'w env" where
  "validate_input_wrapper validators str_of params func args kwargs env =
     (case functools_getattr ''signature'' of
        Inl e \<Rightarrow> (Inl e, env)
      | Inr _ \<Rightarrow>
          (case signature_bind params args kwargs of
             Inl e \<Rightarrow> (Inl e, env)
           | Inr arguments \<Rightarrow>
               (case check_validators str_of validators arguments of
                  Some e \<Rightarrow> (Inl e, env)
                | None \<Rightarrow> invoke func args kwargs env)))"

subsection \<open>Callables of the test suite and of the examples\<close>

text \<open>A fresh environment around a callable's initial world.\<close>

definition env0 :: "'w \<Rightarrow> 'w env" where
  "env0 w = \<lparr>world = w, calls = 0, sleeps = []\<rparr>"

text \<open>
  \<^verbatim>\<open>successful_function\<close> (test_decorators.py, line 224): counts its calls in
  \<^verbatim>\<open>call_count[0]\<close>, the world here, and returns "success".
\<close>

definition successful_function :: "('v, nat, string) pyfun" where
  "successful_function args kwargs call_count =
     (case signature_bind [] args kwargs of
        Inl e \<Rightarrow> (Inl e, call_count)
      | Inr _ \<Rightarrow> (Inr ''success'', call_count + 1))"

text \<open>\<^verbatim>\<open>failing_function\<close> (line 235): raises ConnectionError("Connection failed").\<close>

definition failing_function :: "('v, 'w, 'r) pyfun" where
  "failing_function args kwargs w =
     (case signature_bind [] args kwargs of
        Inl e \<Rightarrow> (Inl e, w)
      | Inr _ \<Rightarrow> (Inl (Exn ConnectionErrorC (TextMsg ''Connection failed'')), w))"

text \<open>\<^verbatim>\<open>validated_function(x)\<close> (line 137) under its validator \<^verbatim>\<open>x > 0\<close>: returns \<^verbatim>\<open>x * 2\<close>.\<close>

definition validated_function :: "(int, 'w, int) pyfun" where
  "validated_function args kwargs w =
     (case signature_bind [(''x'', None)] args kwargs of
        Inl e \<Rightarrow> (Inl e, w)
      | Inr arguments \<Rightarrow>
          (case map_of arguments ''x'' of
             Some x \<Rightarrow> (Inr (x * 2), w)
           | None \<Rightarrow> (Inl (Exn KeyErrorC (TextMsg ''x'')), w)))"

text \<open>
  \<^verbatim>\<open>cached_function(x)\<close> (line 81): counts its calls in \<^verbatim>\<open>call_count[0]\<close> and returns
  \<^verbatim>\<open>x * 2\<close>.
\<close>

definition cached_function :: "(int, nat, int) pyfun" where
  "cached_function args kwargs call_count =
     (case signature_bind [(''x'', None)] args kwargs of
        Inl e \<Rightarrow> (Inl e, call_count)
      | Inr arguments \<Rightarrow>
          (case map_of arguments ''x'' of
             Some x \<Rightarrow> (Inr (x * 2), call_count + 1)
           | None \<Rightarrow> (Inl (Exn KeyErrorC (TextMsg ''x'')), call_count)))"

text \<open>\<^verbatim>\<open>test_function(x, y)\<close> (line 37): returns \<^verbatim>\<open>x + y\<close>.\<close>

definition test_function :: "(int, 'w, int) pyfun" where
  "test_function args kwargs w =
     (case signature_bind [(''x'', None), (''y'', None)] args kwargs of
        Inl e \<Rightarrow> (Inl e, w)
      | Inr arguments \<Rightarrow>
          (case (map_of arguments ''x'', map_of arguments ''y'') of
             (Some x, Some y) \<Rightarrow> (Inr (x + y), w)
           | _ \<Rightarrow> (Inl (Exn KeyErrorC (TextMsg ''x'')), w)))"

text \<open>
  \<^verbatim>\<open>flaky_function\<close> (line 253): raises ConnectionError("Temporary failure") while
  \<^verbatim>\<open>success_count[0] < 3\<close>, counting up, and returns "success" afterwards.
\<close>

definition flaky_function :: "('v, nat, string) pyfun" where
  "flaky_function args kwargs cnt =
     (case signature_bind [] args kwargs of
        Inl e \<Rightarrow> (Inl e, cnt)
      | Inr _ \<Rightarrow>
          if cnt < 3 then (Inl (Exn ConnectionErrorC (TextMsg ''Temporary failure'')), cnt + 1)
          else (Inr ''success'', cnt))"

text \<open>Python's \<^verbatim>\<open>repr\<close> of an integer, in decimal.\<close>

fun str_nat :: "nat \<Rightarrow> string" where
  "str_nat n = (if n < 10 then [char_of (48 + n)] else str_nat (n div 10) @ [char_of (48 + n mod 10)])"

declare str_nat.simps [simp del]

definition repr_int :: "int \<Rightarrow> string" where
  "repr_int i = (if i < 0 then ''-'' @ str_nat (nat (- i)) else str_nat (nat i))"

section \<open>Properties\<close>

subsection \<open>Circuit breaker: basic facts\<close>

lemma cb_run_append:
  "cb_run T R E f func a k (ts @ us) st env =
     (case cb_run T R E f func a k ts st env of
        (rs, st1, env1) \<Rightarrow>
          (case cb_run T R E f func a k us st1 env1 of
             (rs', st2, env2) \<Rightarrow> (rs @ rs', st2, env2)))"
  by (induction ts arbitrary: st env) (auto split: prod.splits)

lemma cb_reject:
  assumes "state st = OPEN" and "now - last_failure_time st < R"
  shows "circuit_breaker_wrapper T R E f func now a k st env =
           (Inl (Exn ExceptionC (CircuitOpenMsg f (R - (now - last_failure_time st)))), st, env)"
  using assms by (simp add: circuit_breaker_wrapper_def)

lemma cb_closed_failure:
  assumes "func a k (world env) = (Inl e, w')" and "isinstance_exn e E" and "state st = CLOSED"
  shows "circuit_breaker_wrapper T R E f func now a k st env =
           (Inl e,
            st\<lparr>state := (if failure_count st + 1 \<ge> T then OPEN else CLOSED),
               failure_count := failure_count st + 1, last_failure_time := now\<rparr>,
            env\<lparr>world := w', calls := calls env + 1\<rparr>)"
  using assms by (simp add: circuit_breaker_wrapper_def invoke_def Let_def)

lemma cb_run_closed_failures:
  assumes fails: "\<forall>w. \<exists>e w'. func a k w = (Inl e, w') \<and> isinstance_exn e E"
    and "state st = CLOSED"
    and "failure_count st + int (length ts) < T"
    and "cb_run T R E f func a k ts st env = (rs, st', env')"
  shows "state st' = CLOSED \<and> failure_count st' = failure_count st + int (length ts)
         \<and> calls env' = calls env + length ts"
  using assms(2-)
proof (induction ts arbitrary: st env rs)
  case Nil
  then show ?case by simp
next
  case (Cons t ts)
  from fails obtain e w' where f: "func a k (world env) = (Inl e, w')" "isinstance_exn e E"
    by blast
  let ?st1 = "st\<lparr>state := (if failure_count st + 1 \<ge> T then OPEN else CLOSED),
               failure_count := failure_count st + 1, last_failure_time := t\<rparr>"
  let ?env1 = "env\<lparr>world := w', calls := calls env + 1\<rparr>"
  have step: "circuit_breaker_wrapper T R E f func t a k st env = (Inl e, ?st1, ?env1)"
    using f Cons.prems(1) by (rule cb_closed_failure)
  have closed1: "state ?st1 = CLOSED" using Cons.prems(2) by simp
  obtain rs1 where run1: "cb_run T R E f func a k ts ?st1 ?env1 = (rs1, st', env')"
    using Cons.prems(3) step by (auto split: prod.splits)
  have "failure_count ?st1 + int (length ts) < T" using Cons.prems(2) by simp
  from Cons.IH [OF closed1 this run1] show ?case by simp
qed

lemma cb_run_snoc:
  assumes "cb_run T R E f func a k ts st env = (rs, st1, env1)"
    and "circuit_breaker_wrapper T R E f func t a k st1 env1 = (r, st2, env2)"
  shows "cb_run T R E f func a k (ts @ [t]) st env = (rs @ [r], st2, env2)"
  using assms by (simp add: cb_run_append)

lemma failing_function_fails:
  "failing_function [] [] w = (Inl (Exn ConnectionErrorC (TextMsg ''Connection failed'')), w)"
  by (simp add: failing_function_def signature_bind_def)

lemma isinstance_ConnectionError_Exception:
  "isinstance_exn (Exn ConnectionErrorC m) [ExceptionC]"
  by (simp add: isinstance_exn_def)


lemma flaky_function_simp:
  "flaky_function [] [] n =
     (if n < 3 then (Inl (Exn ConnectionErrorC (TextMsg ''Temporary failure'')), n + 1)
      else (Inr ''success'', n))"
  by (simp add: flaky_function_def signature_bind_def)

lemmas cb_eval = circuit_breaker_wrapper_def invoke_def isinstance_exn_def cb_init_def env0_def Let_def

lemma cb_open_probe_success:
  assumes "state st = OPEN" and "R \<le> now - last_failure_time st"
    and "func a k (world env) = (Inr v, w')"
  shows "circuit_breaker_wrapper T R E f func now a k st env =
           (Inr v, st\<lparr>state := HALF_OPEN, success_count := 0\<rparr>, env\<lparr>world := w', calls := calls env + 1\<rparr>)"
  using assms by (simp add: circuit_breaker_wrapper_def invoke_def Let_def)

lemma cb_half_open_success:
  assumes "state st = HALF_OPEN" and "func a k (world env) = (Inr v, w')"
  shows "circuit_breaker_wrapper T R E f func now a k st env =
           (Inr v,
            (if 2 \<le> success_count st + 1
             then st\<lparr>state := CLOSED, failure_count := 0, success_count := success_count st + 1\<rparr>
             else st\<lparr>success_count := success_count st + 1\<rparr>),
            env\<lparr>world := w', calls := calls env + 1\<rparr>)"
  using assms by (simp add: circuit_breaker_wrapper_def invoke_def Let_def)

lemma cb_step_invariant:
  assumes "state st \<noteq> CLOSED \<longrightarrow> T \<le> failure_count st"
    and "circuit_breaker_wrapper T R E f func now a k st env = (r, st', env')"
  shows "state st' \<noteq> CLOSED \<longrightarrow> T \<le> failure_count st'"
  using assms
  by (cases "state st")
     (auto simp: circuit_breaker_wrapper_def invoke_def Let_def split: if_splits prod.splits sum.splits)

lemma cb_reachable_invariant:
  assumes "cb_reachable T R E f func st"
  shows "state st \<noteq> CLOSED \<longrightarrow> T \<le> failure_count st"
  using assms
proof (induction rule: cb_reachable.induct)
  case cb_reachable_init
  show ?case by (simp add: cb_init_def)
next
  case (cb_reachable_call storage current_time args kwargs env r storage' env')
  then show ?case using cb_step_invariant by blast
qed

lemma cb_step_count_lowered:
  assumes "circuit_breaker_wrapper T R E f func now a k st env = (r, st', env')"
    and "failure_count st' < failure_count st"
  shows "state st' = CLOSED \<and> failure_count st' = 0"
  using assms
  by (cases "state st")
     (auto simp: circuit_breaker_wrapper_def invoke_def Let_def split: if_splits prod.splits sum.splits)

lemma cb_half_open_failure:
  assumes "circuit_breaker_wrapper T R E f func now a k st env = (Inl e, st', env')"
    and "isinstance_exn e E" and "state st = HALF_OPEN" and "T \<le> failure_count st"
  shows "state st' = OPEN \<and> last_failure_time st' = now \<and> failure_count st' = failure_count st + 1"
  using assms
  by (auto simp: circuit_breaker_wrapper_def invoke_def Let_def split: if_splits prod.splits sum.splits)

lemma cb_not_invoked:
  assumes "circuit_breaker_wrapper T R E f func now a k st env = (r, st', env')"
    and "calls env' = calls env"
  shows "state st = OPEN \<and> now - last_failure_time st < R"
  using assms
  by (auto simp: circuit_breaker_wrapper_def invoke_def Let_def split: if_splits prod.splits sum.splits)

subsection \<open>Circuit breaker: opening and fast failure\<close>

text \<open>
  Claim C4. Starting from a Closed breaker with no counted failure, with a threshold of at
  least one, \<open>failure_threshold\<close> consecutive calls whose wrapped operation raises a qualifying
  exception open the breaker: every one of them invokes the operation, the breaker is
  still Closed before the last of them, and after it the state is Open with
  \<open>last_failure_time\<close> the clock reading of that call. And whenever the breaker is Open and
  less than \<open>recovery_timeout\<close> has elapsed since \<open>last_failure_time\<close>, a call raises the
  rejection carrying \<open>recovery_timeout - (now - last_failure_time)\<close> and leaves store and
  environment as they were: the wrapped operation is not invoked.
\<close>

theorem circuit_breaker_opens_and_fails_fast:
  assumes thr: "1 \<le> failure_threshold"
    and fails: "\<forall>w. \<exists>e w'. func args kwargs w = (Inl e, w') \<and> isinstance_exn e exceptions"
    and closed: "state storage = CLOSED" "failure_count storage = 0"
    and len: "int (length ts) = failure_threshold"
  shows
    "(case cb_run failure_threshold recovery_timeout exceptions fname func args kwargs ts storage env of
        (rs, storage', env') \<Rightarrow>
          state storage' = OPEN \<and> last_failure_time storage' = last ts
          \<and> failure_count storage' = failure_threshold \<and> calls env' = calls env + length ts)
     \<and> (\<forall>n < length ts.
          state (fst (snd (cb_run failure_threshold recovery_timeout exceptions fname func args kwargs
                             (take n ts) storage env))) = CLOSED)
     \<and> (\<forall>st e now a k.
          state st = OPEN \<and> now - last_failure_time st < recovery_timeout \<longrightarrow>
          circuit_breaker_wrapper failure_threshold recovery_timeout exceptions fname func now a k st e
            = (Inl (Exn ExceptionC (CircuitOpenMsg fname (recovery_timeout - (now - last_failure_time st)))), st, e))"
proof (intro conjI)
  from thr len have ne: "ts \<noteq> []" by auto
  then have lpos: "0 < length ts" by simp
  define us where "us = butlast ts"
  have ts: "ts = us @ [last ts]" using ne by (simp add: us_def)
  obtain rs st1 env1 where run1:
    "cb_run failure_threshold recovery_timeout exceptions fname func args kwargs us storage env = (rs, st1, env1)"
    by (metis prod_cases3)
  have "failure_count storage + int (length us) < failure_threshold"
    unfolding us_def length_butlast using closed(2) len lpos by linarith
  from cb_run_closed_failures [OF fails closed(1) this run1]
  have st1: "state st1 = CLOSED" "failure_count st1 = int (length us)" "calls env1 = calls env + length us"
    using closed(2) by simp_all
  from fails obtain e w' where f: "func args kwargs (world env1) = (Inl e, w')" "isinstance_exn e exceptions"
    by blast
  have lus: "int (length us) + 1 = failure_threshold"
    unfolding us_def length_butlast using len lpos by linarith
  have step: "circuit_breaker_wrapper failure_threshold recovery_timeout exceptions fname func (last ts) args kwargs st1 env1
      = (Inl e,
         st1\<lparr>state := OPEN, failure_count := failure_threshold, last_failure_time := last ts\<rparr>,
         env1\<lparr>world := w', calls := calls env1 + 1\<rparr>)"
    using cb_closed_failure [of func args kwargs env1 e w' exceptions st1 failure_threshold recovery_timeout fname "last ts"]
      f st1 lus by simp
  have "cb_run failure_threshold recovery_timeout exceptions fname func args kwargs (us @ [last ts]) storage env
      = (rs @ [Inl e],
         st1\<lparr>state := OPEN, failure_count := failure_threshold, last_failure_time := last ts\<rparr>,
         env1\<lparr>world := w', calls := calls env1 + 1\<rparr>)"
    using run1 step by (rule cb_run_snoc)
  then show "case cb_run failure_threshold recovery_timeout exceptions fname func args kwargs ts storage env of
        (rs, storage', env') \<Rightarrow>
          state storage' = OPEN \<and> last_failure_time storage' = last ts
          \<and> failure_count storage' = failure_threshold \<and> calls env' = calls env + length ts"
    using ts st1(3) ne by (simp add: us_def)
next
  show "\<forall>n < length ts.
          state (fst (snd (cb_run failure_threshold recovery_timeout exceptions fname func args kwargs
                             (take n ts) storage env))) = CLOSED"
  proof (intro allI impI)
  fix n assume n: "n < length ts"
  obtain rs st1 env1 where run1:
    "cb_run failure_threshold recovery_timeout exceptions fname func args kwargs (take n ts) storage env = (rs, st1, env1)"
    by (metis prod_cases3)
  have "failure_count storage + int (length (take n ts)) < failure_threshold"
    using closed(2) len n by simp
  from cb_run_closed_failures [OF fails closed(1) this run1]
  show "state (fst (snd (cb_run failure_threshold recovery_timeout exceptions fname func args kwargs
                             (take n ts) storage env))) = CLOSED"
    using run1 by simp
  qed
next
  show "\<forall>st e now a k.
          state st = OPEN \<and> now - last_failure_time st < recovery_timeout \<longrightarrow>
          circuit_breaker_wrapper failure_threshold recovery_timeout exceptions fname func now a k st e
            = (Inl (Exn ExceptionC (CircuitOpenMsg fname (recovery_timeout - (now - last_failure_time st)))), st, e)"
    by (simp add: cb_reject)
qed

theorem circuit_breaker_opens_and_fails_fast_witness:
  "(1::int) \<le> 2
   \<and> state cb_init = CLOSED \<and> failure_count cb_init = 0 \<and> int (length [0, 1/10 :: real]) = 2
   \<and> fst (snd (cb_run 2 (1/2) [ExceptionC] ''failing_function'' (failing_function :: (int, unit, string) pyfun) [] []
        [0, 1/10] cb_init (env0 ())))
      = \<lparr>state = OPEN, failure_count = 2, last_failure_time = 1/10, success_count = 0\<rparr>
   \<and> state (fst (snd (cb_run 2 (1/2) [ExceptionC] ''failing_function'' (failing_function :: (int, unit, string) pyfun) [] []
        (take 1 [0, 1/10]) cb_init (env0 ())))) = CLOSED
   \<and> fst (circuit_breaker_wrapper 2 (1/2) [ExceptionC] ''failing_function'' (failing_function :: (int, unit, string) pyfun)
        (2/10) [] [] \<lparr>state = OPEN, failure_count = 2, last_failure_time = 1/10, success_count = 0\<rparr> (env0 ()))
      = Inl (Exn ExceptionC (CircuitOpenMsg ''failing_function'' (4/10)))"
proof -
  have fails: "\<forall>w. \<exists>e w'. (failing_function :: (int, unit, string) pyfun) [] [] w = (Inl e, w') \<and> isinstance_exn e [ExceptionC]"
    by (simp add: failing_function_fails isinstance_exn_def)
  have h: "(1::int) \<le> 2" "state cb_init = CLOSED" "failure_count cb_init = 0" "int (length [0, 1/10 :: real]) = 2"
    by (simp_all add: cb_init_def)
  from circuit_breaker_opens_and_fails_fast
    [where failure_threshold = 2 and recovery_timeout = "1/2" and exceptions = "[ExceptionC]"
       and fname = "''failing_function''" and func = "failing_function :: (int, unit, string) pyfun"
       and args = "[]" and kwargs = "[]" and storage = cb_init and ts = "[0, 1/10]" and env = "env0 ()",
     OF h(1) fails h(2) h(3) h(4)]
  show ?thesis
    by (simp add: circuit_breaker_wrapper_def invoke_def failing_function_fails isinstance_exn_def cb_init_def env0_def)
qed

subsection \<open>Circuit breaker: recovery\<close>

text \<open>
  What the wrapper does after the recovery timeout, whatever the parameters, when the
  wrapped operation succeeds: the call that leaves Open does not count, the next one
  brings \<open>success_count\<close> to one, and the third one closes the breaker.
\<close>

lemma cb_recovery_run:
  assumes "state st = OPEN" and "R \<le> t1 - last_failure_time st"
    and succeeds: "\<forall>w. \<exists>v w'. func a k w = (Inr v, w')"
  shows "fst (snd (cb_run T R E f func a k [t1, t2] st env)) = st\<lparr>state := HALF_OPEN, success_count := 1\<rparr>"
    and "fst (snd (cb_run T R E f func a k [t1, t2, t3] st env))
           = st\<lparr>state := CLOSED, failure_count := 0, success_count := 2\<rparr>"
proof -
  from succeeds obtain v1 w1 where f1: "func a k (world env) = (Inr v1, w1)" by blast
  let ?env1 = "env\<lparr>world := w1, calls := calls env + 1\<rparr>"
  let ?st1 = "st\<lparr>state := HALF_OPEN, success_count := 0\<rparr>"
  have s1: "circuit_breaker_wrapper T R E f func t1 a k st env = (Inr v1, ?st1, ?env1)"
    using assms(1,2) f1 by (rule cb_open_probe_success)
  from succeeds obtain v2 w2 where f2: "func a k (world ?env1) = (Inr v2, w2)" by blast
  let ?env2 = "?env1\<lparr>world := w2, calls := calls ?env1 + 1\<rparr>"
  let ?st2 = "st\<lparr>state := HALF_OPEN, success_count := 1\<rparr>"
  have s2: "circuit_breaker_wrapper T R E f func t2 a k ?st1 ?env1 = (Inr v2, ?st2, ?env2)"
    using cb_half_open_success [where st = ?st1 and func = func and a = a and k = k and env = ?env1
        and v = v2 and w' = w2 and T = T and R = R and E = E and f = f and now = t2] f2
    by simp
  from succeeds obtain v3 w3 where f3: "func a k (world ?env2) = (Inr v3, w3)" by blast
  let ?env3 = "?env2\<lparr>world := w3, calls := calls ?env2 + 1\<rparr>"
  have s3: "circuit_breaker_wrapper T R E f func t3 a k ?st2 ?env2
      = (Inr v3, st\<lparr>state := CLOSED, failure_count := 0, success_count := 2\<rparr>, ?env3)"
    using cb_half_open_success [where st = ?st2 and func = func and a = a and k = k and env = ?env2
        and v = v3 and w' = w3 and T = T and R = R and E = E and f = f and now = t3] f3
    by simp
  show "fst (snd (cb_run T R E f func a k [t1, t2] st env)) = st\<lparr>state := HALF_OPEN, success_count := 1\<rparr>"
    using s1 s2 by simp
  show "fst (snd (cb_run T R E f func a k [t1, t2, t3] st env))
           = st\<lparr>state := CLOSED, failure_count := 0, success_count := 2\<rparr>"
    using s1 s2 s3 by simp
qed

text \<open>
  Claim C1. The test-suite scenario with threshold 2 and recovery timeout 0.5: two failing
  calls open the breaker, an immediate third call is rejected, and after the timeout the
  wrapped operation succeeds. The call that moves the breaker to HalfOpen tests the local
  \<^verbatim>\<open>state\<close>, read before the move and still Open, so its success is not counted: after
  two consecutive successful calls the breaker is HalfOpen with \<open>success_count = 1\<close>, and
  only a third successful call closes it.
\<close>

theorem circuit_breaker_recovery_needs_third_success:
  "cb_run 2 (1/2) [ExceptionC] ''flaky_function'' flaky_function ([]::int list) []
          [0, 1/10, 2/10, 8/10, 9/10] cb_init (env0 1)
     = ([Inl (Exn ConnectionErrorC (TextMsg ''Temporary failure'')),
         Inl (Exn ConnectionErrorC (TextMsg ''Temporary failure'')),
         Inl (Exn ExceptionC (CircuitOpenMsg ''flaky_function'' (4/10))),
         Inr ''success'', Inr ''success''],
        \<lparr>state = HALF_OPEN, failure_count = 2, last_failure_time = 1/10, success_count = 1\<rparr>,
        \<lparr>world = 3, calls = 4, sleeps = []\<rparr>)
   \<and> fst (snd (cb_run 2 (1/2) [ExceptionC] ''flaky_function'' flaky_function ([]::int list) []
          [0, 1/10, 2/10, 8/10, 9/10, 1] cb_init (env0 1)))
     = \<lparr>state = CLOSED, failure_count = 0, last_failure_time = 1/10, success_count = 2\<rparr>"
  by (simp add: cb_eval flaky_function_simp)

subsection \<open>Circuit breaker: the rejection\<close>

text \<open>
  Claim C7, as stated, fails: the rejection is a plain \<^verbatim>\<open>Exception\<close>. With two stacked
  breakers, the rejection the outer breaker raises when Open is the very value its
  wrapped operation (the inner breaker, Open) raises; the default qualifying set matches
  it, and the outer breaker, when Closed, counts it as a failure.
\<close>

theorem circuit_open_kind_not_distinct_counterexample:
  "fst (circuit_breaker_wrapper 2 10 [ExceptionC] ''f''
          (circuit_breaker_decorated 2 10 [ExceptionC] ''f'' (failing_function :: (int, unit, string) pyfun) 1) 1 [] []
          \<lparr>state = OPEN, failure_count = 2, last_failure_time = 0, success_count = 0\<rparr>
          (env0 (\<lparr>state = OPEN, failure_count = 2, last_failure_time = 0, success_count = 0\<rparr>, env0 ())))
     = Inl (Exn ExceptionC (CircuitOpenMsg ''f'' 9))
   \<and> fst (circuit_breaker_decorated 2 10 [ExceptionC] ''f'' (failing_function :: (int, unit, string) pyfun) 1 [] []
          (\<lparr>state = OPEN, failure_count = 2, last_failure_time = 0, success_count = 0\<rparr>, env0 ()))
     = Inl (Exn ExceptionC (CircuitOpenMsg ''f'' 9))
   \<and> isinstance_exn (Exn ExceptionC (CircuitOpenMsg ''f'' 9)) [ExceptionC]
   \<and> fst (snd (circuit_breaker_wrapper 2 10 [ExceptionC] ''f''
          (circuit_breaker_decorated 2 10 [ExceptionC] ''f'' (failing_function :: (int, unit, string) pyfun) 1) 1 [] []
          cb_init
          (env0 (\<lparr>state = OPEN, failure_count = 2, last_failure_time = 0, success_count = 0\<rparr>, env0 ()))))
     = \<lparr>state = CLOSED, failure_count = 1, last_failure_time = 1, success_count = 0\<rparr>"
  by (simp add: cb_eval circuit_breaker_decorated_def)

text \<open>
  Claim C7, amended. The rejection of an Open breaker is an \<^verbatim>\<open>Exception\<close> (matched by the
  default qualifying set), raised before the wrapped operation is tried: the call leaves
  the store, so \<open>failure_count\<close> and \<open>last_failure_time\<close>, and the environment unchanged.
  Conversely a call that does not invoke the wrapped operation is such a rejection.
\<close>

theorem circuit_open_rejection_keeps_counters:
  "(state storage = OPEN \<and> current_time - last_failure_time storage < recovery_timeout \<longrightarrow>
      circuit_breaker_wrapper failure_threshold recovery_timeout exceptions fname func current_time args kwargs storage env
        = (Inl (Exn ExceptionC (CircuitOpenMsg fname (recovery_timeout - (current_time - last_failure_time storage)))),
           storage, env))
   \<and> isinstance_exn (Exn ExceptionC (CircuitOpenMsg fname w)) [ExceptionC]
   \<and> (case circuit_breaker_wrapper failure_threshold recovery_timeout exceptions fname func current_time args kwargs storage env of
        (r, storage', env') \<Rightarrow>
          calls env' = calls env \<longrightarrow>
            r = Inl (Exn ExceptionC (CircuitOpenMsg fname (recovery_timeout - (current_time - last_failure_time storage))))
            \<and> storage' = storage \<and> env' = env
            \<and> failure_count storage' = failure_count storage
            \<and> last_failure_time storage' = last_failure_time storage)"
proof (intro conjI)
  show "state storage = OPEN \<and> current_time - last_failure_time storage < recovery_timeout \<longrightarrow>
      circuit_breaker_wrapper failure_threshold recovery_timeout exceptions fname func current_time args kwargs storage env
        = (Inl (Exn ExceptionC (CircuitOpenMsg fname (recovery_timeout - (current_time - last_failure_time storage)))),
           storage, env)"
    by (simp add: cb_reject)
next
  show "isinstance_exn (Exn ExceptionC (CircuitOpenMsg fname w)) [ExceptionC]"
    by (simp add: isinstance_exn_def)
next
  obtain r storage' env' where w:
    "circuit_breaker_wrapper failure_threshold recovery_timeout exceptions fname func current_time args kwargs storage env
       = (r, storage', env')"
    by (metis prod_cases3)
  have "calls env' = calls env \<longrightarrow>
            r = Inl (Exn ExceptionC (CircuitOpenMsg fname (recovery_timeout - (current_time - last_failure_time storage))))
            \<and> storage' = storage \<and> env' = env
            \<and> failure_count storage' = failure_count storage
            \<and> last_failure_time storage' = last_failure_time storage"
  proof
    assume "calls env' = calls env"
    with w have "state storage = OPEN \<and> current_time - last_failure_time storage < recovery_timeout"
      by (rule cb_not_invoked)
    then have "circuit_breaker_wrapper failure_threshold recovery_timeout exceptions fname func current_time args kwargs storage env
        = (Inl (Exn ExceptionC (CircuitOpenMsg fname (recovery_timeout - (current_time - last_failure_time storage)))),
           storage, env)"
      by (simp add: cb_reject)
    with w show "r = Inl (Exn ExceptionC (CircuitOpenMsg fname (recovery_timeout - (current_time - last_failure_time storage))))
            \<and> storage' = storage \<and> env' = env
            \<and> failure_count storage' = failure_count storage
            \<and> last_failure_time storage' = last_failure_time storage"
      by auto
  qed
  with w show "case circuit_breaker_wrapper failure_threshold recovery_timeout exceptions fname func current_time args kwargs storage env of
        (r, storage', env') \<Rightarrow>
          calls env' = calls env \<longrightarrow>
            r = Inl (Exn ExceptionC (CircuitOpenMsg fname (recovery_timeout - (current_time - last_failure_time storage))))
            \<and> storage' = storage \<and> env' = env
            \<and> failure_count storage' = failure_count storage
            \<and> last_failure_time storage' = last_failure_time storage"
    by simp
qed

theorem circuit_open_rejection_keeps_counters_witness:
  "state \<lparr>state = OPEN, failure_count = 2, last_failure_time = 0, success_count = 0\<rparr> = OPEN
   \<and> (1::real) - last_failure_time \<lparr>state = OPEN, failure_count = 2, last_failure_time = 0, success_count = 0\<rparr> < 10
   \<and> circuit_breaker_wrapper 2 10 [ExceptionC] ''failing_function'' (failing_function :: (int, unit, string) pyfun) 1 [] []
        \<lparr>state = OPEN, failure_count = 2, last_failure_time = 0, success_count = 0\<rparr> (env0 ())
      = (Inl (Exn ExceptionC (CircuitOpenMsg ''failing_function'' 9)),
         \<lparr>state = OPEN, failure_count = 2, last_failure_time = 0, success_count = 0\<rparr>, env0 ())
   \<and> calls (snd (snd (circuit_breaker_wrapper 2 10 [ExceptionC] ''failing_function''
        (failing_function :: (int, unit, string) pyfun) 1 [] []
        \<lparr>state = OPEN, failure_count = 2, last_failure_time = 0, success_count = 0\<rparr> (env0 ())))) = calls (env0 ())"
  using circuit_open_rejection_keeps_counters
    [where storage = "\<lparr>state = OPEN, failure_count = 2, last_failure_time = 0, success_count = 0\<rparr>"
       and current_time = 1 and recovery_timeout = 10 and failure_threshold = 2 and exceptions = "[ExceptionC]"
       and fname = "''failing_function''" and func = "failing_function :: (int, unit, string) pyfun"
       and args = "[]" and kwargs = "[]" and env = "env0 ()"]
  by simp

subsection \<open>Circuit breaker: the counter invariant\<close>

text \<open>
  Claim C10. With a threshold of at least one, every store reachable by calls of the
  wrapper satisfies: in Open and HalfOpen \<open>failure_count\<close> is at least the threshold, so a
  zero \<open>failure_count\<close> means Closed; a call that lowers \<open>failure_count\<close> ends Closed with
  \<open>failure_count = 0\<close>; and a qualifying failure in HalfOpen ends Open, recording its time.
\<close>

theorem circuit_breaker_counter_invariant:
  assumes "1 \<le> failure_threshold"
    and "cb_reachable failure_threshold recovery_timeout exceptions fname func storage"
  shows
    "(state storage = OPEN \<or> state storage = HALF_OPEN \<longrightarrow> failure_threshold \<le> failure_count storage)
     \<and> (failure_count storage = 0 \<longrightarrow> state storage = CLOSED)
     \<and> (\<forall>now args kwargs env.
          case circuit_breaker_wrapper failure_threshold recovery_timeout exceptions fname func now args kwargs storage env of
            (r, storage', env') \<Rightarrow>
              (failure_count storage' < failure_count storage \<longrightarrow>
                 state storage' = CLOSED \<and> failure_count storage' = 0)
              \<and> (state storage = HALF_OPEN \<and> (\<exists>e. r = Inl e \<and> isinstance_exn e exceptions) \<longrightarrow>
                 state storage' = OPEN \<and> last_failure_time storage' = now))"
proof -
  have inv: "state storage \<noteq> CLOSED \<longrightarrow> failure_threshold \<le> failure_count storage"
    using assms(2) by (rule cb_reachable_invariant)
  have a: "state storage = OPEN \<or> state storage = HALF_OPEN \<longrightarrow> failure_threshold \<le> failure_count storage"
    using inv by auto
  have b: "failure_count storage = 0 \<longrightarrow> state storage = CLOSED"
    using inv assms(1) by auto
  have c: "\<forall>now args kwargs env.
          case circuit_breaker_wrapper failure_threshold recovery_timeout exceptions fname func now args kwargs storage env of
            (r, storage', env') \<Rightarrow>
              (failure_count storage' < failure_count storage \<longrightarrow>
                 state storage' = CLOSED \<and> failure_count storage' = 0)
              \<and> (state storage = HALF_OPEN \<and> (\<exists>e. r = Inl e \<and> isinstance_exn e exceptions) \<longrightarrow>
                 state storage' = OPEN \<and> last_failure_time storage' = now)"
  proof (intro allI)
    fix now args kwargs env
    obtain r storage' env' where w:
      "circuit_breaker_wrapper failure_threshold recovery_timeout exceptions fname func now args kwargs storage env
         = (r, storage', env')"
      by (metis prod_cases3)
    have 1: "failure_count storage' < failure_count storage \<longrightarrow>
                 state storage' = CLOSED \<and> failure_count storage' = 0"
      using cb_step_count_lowered [OF w] by blast
    have 2: "state storage = HALF_OPEN \<and> (\<exists>e. r = Inl e \<and> isinstance_exn e exceptions) \<longrightarrow>
                 state storage' = OPEN \<and> last_failure_time storage' = now"
    proof
      assume h: "state storage = HALF_OPEN \<and> (\<exists>e. r = Inl e \<and> isinstance_exn e exceptions)"
      then obtain e where e: "r = Inl e" "isinstance_exn e exceptions" by blast
      have "failure_threshold \<le> failure_count storage" using inv h by simp
      with cb_half_open_failure [OF w [unfolded e(1)] e(2)] h
      show "state storage' = OPEN \<and> last_failure_time storage' = now" by simp
    qed
    show "case circuit_breaker_wrapper failure_threshold recovery_timeout exceptions fname func now args kwargs storage env of
            (r, storage', env') \<Rightarrow>
              (failure_count storage' < failure_count storage \<longrightarrow>
                 state storage' = CLOSED \<and> failure_count storage' = 0)
              \<and> (state storage = HALF_OPEN \<and> (\<exists>e. r = Inl e \<and> isinstance_exn e exceptions) \<longrightarrow>
                 state storage' = OPEN \<and> last_failure_time storage' = now)"
      using w 1 2 by simp
  qed
  from a b c show ?thesis by blast
qed

theorem circuit_breaker_counter_invariant_witness:
  "(1::int) \<le> 2
   \<and> cb_reachable 2 (1/2) [ExceptionC] ''flaky_function'' (flaky_function :: (int, nat, string) pyfun) cb_init
   \<and> failure_count cb_init = 0 \<and> state cb_init = CLOSED
   \<and> cb_reachable 2 (1/2) [ExceptionC] ''flaky_function'' (flaky_function :: (int, nat, string) pyfun)
        \<lparr>state = CLOSED, failure_count = 1, last_failure_time = 0, success_count = 0\<rparr>
   \<and> fst (snd (circuit_breaker_wrapper 2 (1/2) [ExceptionC] ''flaky_function'' (flaky_function :: (int, nat, string) pyfun)
        (1/20) [] [] \<lparr>state = CLOSED, failure_count = 1, last_failure_time = 0, success_count = 0\<rparr> (env0 3)))
       = \<lparr>state = CLOSED, failure_count = 0, last_failure_time = 0, success_count = 0\<rparr>
   \<and> cb_reachable 2 (1/2) [ExceptionC] ''flaky_function'' (flaky_function :: (int, nat, string) pyfun)
        \<lparr>state = HALF_OPEN, failure_count = 2, last_failure_time = 1/10, success_count = 0\<rparr>
   \<and> (2::int) \<le> failure_count \<lparr>state = HALF_OPEN, failure_count = 2, last_failure_time = 1/10, success_count = 0\<rparr>
   \<and> fst (circuit_breaker_wrapper 2 (1/2) [ExceptionC] ''flaky_function'' (flaky_function :: (int, nat, string) pyfun) 1 [] []
        \<lparr>state = HALF_OPEN, failure_count = 2, last_failure_time = 1/10, success_count = 0\<rparr> (env0 0))
       = Inl (Exn ConnectionErrorC (TextMsg ''Temporary failure''))
   \<and> isinstance_exn (Exn ConnectionErrorC (TextMsg ''Temporary failure'')) [ExceptionC]
   \<and> state (fst (snd (circuit_breaker_wrapper 2 (1/2) [ExceptionC] ''flaky_function'' (flaky_function :: (int, nat, string) pyfun) 1 [] []
        \<lparr>state = HALF_OPEN, failure_count = 2, last_failure_time = 1/10, success_count = 0\<rparr> (env0 0)))) = OPEN"
proof -
  let ?f = "flaky_function :: (int, nat, string) pyfun"
  let ?R = "cb_reachable 2 (1/2) [ExceptionC] ''flaky_function'' ?f"
  let ?half = "\<lparr>state = HALF_OPEN, failure_count = 2, last_failure_time = 1/10, success_count = 0\<rparr>"
  let ?one = "\<lparr>state = CLOSED, failure_count = 1, last_failure_time = 0, success_count = 0\<rparr>"
  have r0: "?R cb_init" by (rule cb_reachable_init)
  have "circuit_breaker_wrapper 2 (1/2) [ExceptionC] ''flaky_function'' ?f 0 [] [] cb_init (env0 0)
          = (Inl (Exn ConnectionErrorC (TextMsg ''Temporary failure'')), ?one,
             \<lparr>world = 1, calls = 1, sleeps = []\<rparr>)"
    by (simp add: cb_eval flaky_function_simp)
  with r0 have r1: "?R ?one"
    by (rule cb_reachable_call)
  have "circuit_breaker_wrapper 2 (1/2) [ExceptionC] ''flaky_function'' ?f (1/10) [] [] ?one (env0 1)
          = (Inl (Exn ConnectionErrorC (TextMsg ''Temporary failure'')),
             \<lparr>state = OPEN, failure_count = 2, last_failure_time = 1/10, success_count = 0\<rparr>,
             \<lparr>world = 2, calls = 1, sleeps = []\<rparr>)"
    by (simp add: cb_eval flaky_function_simp)
  with r1 have r2: "?R \<lparr>state = OPEN, failure_count = 2, last_failure_time = 1/10, success_count = 0\<rparr>"
    by (rule cb_reachable_call)
  have "circuit_breaker_wrapper 2 (1/2) [ExceptionC] ''flaky_function'' ?f (8/10) [] []
          \<lparr>state = OPEN, failure_count = 2, last_failure_time = 1/10, success_count = 0\<rparr> (env0 3)
          = (Inr ''success'', ?half, \<lparr>world = 3, calls = 1, sleeps = []\<rparr>)"
    by (simp add: cb_eval flaky_function_simp)
  with r2 have r3: "?R ?half"
    by (rule cb_reachable_call)
  have h: "(1::int) \<le> 2" by simp
  have a: "failure_count cb_init = 0 \<and> state cb_init = CLOSED"
    using circuit_breaker_counter_invariant [OF h r0] by (simp add: cb_init_def)
  have b: "fst (snd (circuit_breaker_wrapper 2 (1/2) [ExceptionC] ''flaky_function'' ?f (1/20) [] [] ?one (env0 3)))
       = \<lparr>state = CLOSED, failure_count = 0, last_failure_time = 0, success_count = 0\<rparr>"
    using circuit_breaker_counter_invariant [OF h r1] by (simp add: cb_eval flaky_function_simp)
  have c: "(2::int) \<le> failure_count ?half
     \<and> fst (circuit_breaker_wrapper 2 (1/2) [ExceptionC] ''flaky_function'' ?f 1 [] [] ?half (env0 0))
       = Inl (Exn ConnectionErrorC (TextMsg ''Temporary failure''))
     \<and> isinstance_exn (Exn ConnectionErrorC (TextMsg ''Temporary failure'')) [ExceptionC]
     \<and> state (fst (snd (circuit_breaker_wrapper 2 (1/2) [ExceptionC] ''flaky_function'' ?f 1 [] [] ?half (env0 0)))) = OPEN"
    using circuit_breaker_counter_invariant [OF h r3] by (simp add: cb_eval flaky_function_simp)
  show ?thesis using h r0 r1 r3 a b c by simp
qed

subsection \<open>Rate limiter\<close>

lemma rl_admit:
  assumes "int (length (filter (\<lambda>u. t - u < P) h)) < N"
  shows "rate_limit_wrapper N P f func t a k h env =
           (fst (func a k (world env)),
            filter (\<lambda>u. t - u < P) h @ [t],
            env\<lparr>world := snd (func a k (world env)), calls := calls env + 1\<rparr>)"
  using assms by (simp add: rate_limit_wrapper_def invoke_def Let_def split: prod.splits)

lemma rl_reject:
  assumes "N \<le> int (length (filter (\<lambda>u. t - u < P) h))" and "filter (\<lambda>u. t - u < P) h \<noteq> []"
  shows "rate_limit_wrapper N P f func t a k h env =
           (Inl (Exn ExceptionC (RateLimitMsg f (P - (t - hd (filter (\<lambda>u. t - u < P) h))))),
            filter (\<lambda>u. t - u < P) h, env)"
  using assms by (simp add: rate_limit_wrapper_def Let_def split: list.splits)

lemma rl_not_admitted:
  assumes "\<not> int (length (filter (\<lambda>u. t - u < P) h)) < N"
  shows "snd (rate_limit_wrapper N P f func t a k h env) = (filter (\<lambda>u. t - u < P) h, env)"
  using assms
  by (cases "filter (\<lambda>u. t - u < P) h") (simp_all add: rate_limit_wrapper_def Let_def)

lemma rl_run_all_admitted:
  assumes "\<forall>u \<in> set h \<union> set ts. \<forall>v \<in> set ts. v - u < P"
    and "int (length h + length ts) \<le> N"
  shows "rl_run N P f func a k ts h env =
           (map (\<lambda>i. fst (func a k (world_after func a k i (world env)))) [0..<length ts],
            h @ ts,
            env\<lparr>world := world_after func a k (length ts) (world env), calls := calls env + length ts\<rparr>)"
  using assms
proof (induction ts arbitrary: h env)
  case Nil
  then show ?case by simp
next
  case (Cons t ts)
  have keep: "filter (\<lambda>u. t - u < P) h = h" using Cons.prems(1) by (simp add: filter_id_conv)
  have "int (length (filter (\<lambda>u. t - u < P) h)) < N" using Cons.prems(2) keep by simp
  then have step: "rate_limit_wrapper N P f func t a k h env =
           (fst (func a k (world env)), h @ [t],
            env\<lparr>world := snd (func a k (world env)), calls := calls env + 1\<rparr>)"
    using rl_admit [of t P h N f func a k env] keep by simp
  let ?env1 = "env\<lparr>world := snd (func a k (world env)), calls := calls env + 1\<rparr>"
  have p1: "\<forall>u \<in> set (h @ [t]) \<union> set ts. \<forall>v \<in> set ts. v - u < P" using Cons.prems(1) by auto
  have p2: "int (length (h @ [t]) + length ts) \<le> N" using Cons.prems(2) by simp
  have ih: "rl_run N P f func a k ts (h @ [t]) ?env1 =
           (map (\<lambda>i. fst (func a k (world_after func a k i (world ?env1)))) [0..<length ts],
            (h @ [t]) @ ts,
            ?env1\<lparr>world := world_after func a k (length ts) (world ?env1), calls := calls ?env1 + length ts\<rparr>)"
    using Cons.IH [OF p1 p2] .
  have m: "map (\<lambda>i. fst (func a k (world_after func a k i (world env)))) [0..<length (t # ts)]
      = fst (func a k (world env)) # map (\<lambda>i. fst (func a k (world_after func a k i (world ?env1)))) [0..<length ts]"
    by (simp add: map_upt_Suc del: upt_Suc)
  show ?case unfolding m using step ih by simp
qed

lemma filter_window_mono:
  assumes "(c::real) \<le> c'"
  shows "filter (\<lambda>u. c' - u < P) (filter (\<lambda>u. c - u < P) xs) = filter (\<lambda>u. c' - u < P) xs"
proof -
  have "\<And>u. (c - u < P \<and> c' - u < P) = (c' - u < P)" using assms by auto
  then show ?thesis by simp
qed

lemma rl_window_invariant:
  assumes "sorted (c # ts)"
    and "\<forall>c' \<ge> c. filter (\<lambda>u. c' - u < P) h = filter (\<lambda>u. c' - u < P) A"
    and "rl_admitted N P f func a k ts h env = xs @ t # ys"
  shows "int (length (filter (\<lambda>u. t - u < P) (A @ xs))) < N"
  using assms
proof (induction ts arbitrary: c h A env xs)
  case Nil
  then show ?case by simp
next
  case (Cons c' ts)
  have cc: "c \<le> c'" and srt: "sorted (c' # ts)" using Cons.prems(1) by auto
  let ?h1 = "filter (\<lambda>u. c' - u < P) h"
  have h1: "?h1 = filter (\<lambda>u. c' - u < P) A" using Cons.prems(2) cc by blast
  show ?case
  proof (cases "int (length ?h1) < N")
    case True
    let ?env1 = "env\<lparr>world := snd (func a k (world env)), calls := calls env + 1\<rparr>"
    have step: "rate_limit_wrapper N P f func c' a k h env = (fst (func a k (world env)), ?h1 @ [c'], ?env1)"
      using True by (rule rl_admit)
    have adm: "rl_admitted N P f func a k (c' # ts) h env = c' # rl_admitted N P f func a k ts (?h1 @ [c']) ?env1"
      using step by simp
    have J: "\<forall>d \<ge> c'. filter (\<lambda>u. d - u < P) (?h1 @ [c']) = filter (\<lambda>u. d - u < P) (A @ [c'])"
    proof (intro allI impI)
      fix d assume d: "c' \<le> d"
      have "filter (\<lambda>u. d - u < P) ?h1 = filter (\<lambda>u. d - u < P) h" using d by (rule filter_window_mono)
      also have "\<dots> = filter (\<lambda>u. d - u < P) A" using Cons.prems(2) cc d by simp
      finally show "filter (\<lambda>u. d - u < P) (?h1 @ [c']) = filter (\<lambda>u. d - u < P) (A @ [c'])" by simp
    qed
    show ?thesis
    proof (cases xs)
      case Nil
      then have "t = c'" using Cons.prems(3) adm by simp
      then show ?thesis using True h1 Nil by simp
    next
      case (Cons x xs')
      then have x: "x = c'" and rest: "rl_admitted N P f func a k ts (?h1 @ [c']) ?env1 = xs' @ t # ys"
        using Cons.prems(3) adm by simp_all
      from Cons.IH [OF srt J rest] show ?thesis using Cons x by simp
    qed
  next
    case False
    obtain r where rej: "rate_limit_wrapper N P f func c' a k h env = (r, ?h1, env)"
      using rl_not_admitted [OF False, of f func a k env] by (metis prod.collapse)
    have adm: "rl_admitted N P f func a k (c' # ts) h env = rl_admitted N P f func a k ts ?h1 env"
      using rej by simp
    have J: "\<forall>d \<ge> c'. filter (\<lambda>u. d - u < P) ?h1 = filter (\<lambda>u. d - u < P) A"
    proof (intro allI impI)
      fix d assume d: "c' \<le> d"
      have "filter (\<lambda>u. d - u < P) ?h1 = filter (\<lambda>u. d - u < P) h" using d by (rule filter_window_mono)
      also have "\<dots> = filter (\<lambda>u. d - u < P) A" using Cons.prems(2) cc d by simp
      finally show "filter (\<lambda>u. d - u < P) ?h1 = filter (\<lambda>u. d - u < P) A" .
    qed
    have rest: "rl_admitted N P f func a k ts ?h1 env = xs @ t # ys" using Cons.prems(3) adm by simp
    from Cons.IH [OF srt J rest] show ?thesis .
  qed
qed

lemma successful_function_succeeds:
  "successful_function [] [] n = (Inr ''success'', n + 1)"
  by (simp add: successful_function_def signature_bind_def)

lemma upt_2: "[0..<2] = [0, 1]"
  by (simp add: upt_rec)

text \<open>With a limit below one, the history is empty when the limit is reached and indexing it raises.\<close>

lemma rate_limit_no_capacity:
  assumes "max_calls \<le> 0" and "filter (\<lambda>u. t - u < period_seconds) call_history = []"
  shows "rate_limit_wrapper max_calls period_seconds fname func t args kwargs call_history env =
           (Inl (Exn IndexErrorC (TextMsg ''list index out of range'')), [], env)"
  using assms by (simp add: rate_limit_wrapper_def)

text \<open>
  Claim C3. With a limit of \<open>max_calls\<close> (at least one), a fresh history and a clock that does
  not run backwards: \<open>max_calls\<close> calls are all let through, each invoking the wrapped
  operation and appending its clock reading; a further call at \<open>t\<close>, less than
  \<open>period_seconds\<close> after the first of them, raises the rejection carrying
  \<open>period_seconds - (t - oldest)\<close>, with history and environment unchanged (nothing appended,
  nothing invoked); and any call at least \<open>period_seconds\<close> after the oldest entry is let
  through again. For any run from a fresh history, a call that is let through has fewer
  than \<open>max_calls\<close> earlier admitted calls within the \<open>period_seconds\<close> before it, so no
  window of that length ending at an admitted call holds more than \<open>max_calls\<close> of them.
\<close>

theorem rate_limit_sliding_window:
  assumes "1 \<le> max_calls"
    and "int (length ts) = max_calls"
    and "sorted (ts @ [t])"
    and "t - hd ts < period_seconds"
  shows
    "(case rl_run max_calls period_seconds fname func args kwargs ts [] env of
        (rs, call_history, env') \<Rightarrow>
          rs = map (\<lambda>i. fst (func args kwargs (world_after func args kwargs i (world env)))) [0..<length ts]
          \<and> call_history = ts
          \<and> calls env' = calls env + length ts
          \<and> rate_limit_wrapper max_calls period_seconds fname func t args kwargs call_history env'
              = (Inl (Exn ExceptionC (RateLimitMsg fname (period_seconds - (t - hd ts)))), call_history, env')
          \<and> (\<forall>t'. period_seconds \<le> t' - hd ts \<longrightarrow>
                rate_limit_wrapper max_calls period_seconds fname func t' args kwargs call_history env'
                  = (fst (func args kwargs (world env')),
                     filter (\<lambda>u. t' - u < period_seconds) call_history @ [t'],
                     env'\<lparr>world := snd (func args kwargs (world env')), calls := calls env' + 1\<rparr>)))
     \<and> (\<forall>us e xs u ys.
           sorted us \<and> rl_admitted max_calls period_seconds fname func args kwargs us [] e = xs @ u # ys \<longrightarrow>
           int (length (filter (\<lambda>v. u - v < period_seconds) xs)) < max_calls)"
proof (intro conjI)
  have ne: "ts \<noteq> []" using assms(1,2) by auto
  have srt: "sorted ts" and le_t: "\<forall>u \<in> set ts. u \<le> t"
    using assms(3) by (simp_all add: sorted_append)
  have hd_le: "\<forall>u \<in> set ts. hd ts \<le> u"
    using srt ne by (cases ts) auto
  have within: "\<forall>u \<in> set ts. \<forall>v \<in> set ts. v - u < period_seconds"
  proof (intro ballI)
    fix u v assume "u \<in> set ts" "v \<in> set ts"
    then have "v \<le> t" "hd ts \<le> u" using le_t hd_le by auto
    then show "v - u < period_seconds" using assms(4) by linarith
  qed
  let ?env' = "env\<lparr>world := world_after func args kwargs (length ts) (world env), calls := calls env + length ts\<rparr>"
  have run: "rl_run max_calls period_seconds fname func args kwargs ts [] env =
           (map (\<lambda>i. fst (func args kwargs (world_after func args kwargs i (world env)))) [0..<length ts],
            ts, ?env')"
    using rl_run_all_admitted [of "[]" ts period_seconds max_calls fname func args kwargs env] within assms(2)
    by simp
  have keep: "filter (\<lambda>u. t - u < period_seconds) ts = ts"
  proof -
    have "\<forall>u \<in> set ts. t - u < period_seconds"
    proof
      fix u assume "u \<in> set ts"
      then have "hd ts \<le> u" using hd_le by auto
      then show "t - u < period_seconds" using assms(4) by linarith
    qed
    then show ?thesis by (simp add: filter_id_conv)
  qed
  have rej: "rate_limit_wrapper max_calls period_seconds fname func t args kwargs ts ?env'
      = (Inl (Exn ExceptionC (RateLimitMsg fname (period_seconds - (t - hd ts)))), ts, ?env')"
    using rl_reject [of max_calls t period_seconds ts fname func args kwargs ?env'] keep ne assms(2)
    by simp
  have repl: "\<forall>t'. period_seconds \<le> t' - hd ts \<longrightarrow>
                rate_limit_wrapper max_calls period_seconds fname func t' args kwargs ts ?env'
                  = (fst (func args kwargs (world ?env')),
                     filter (\<lambda>u. t' - u < period_seconds) ts @ [t'],
                     ?env'\<lparr>world := snd (func args kwargs (world ?env')), calls := calls ?env' + 1\<rparr>)"
  proof (intro allI impI)
    fix t' assume t': "period_seconds \<le> t' - hd ts"
    have "hd ts \<in> set ts" using ne by simp
    moreover have "\<not> (t' - hd ts < period_seconds)" using t' by simp
    ultimately have "length (filter (\<lambda>u. t' - u < period_seconds) ts) < length ts"
      by (rule length_filter_less)
    then have "int (length (filter (\<lambda>u. t' - u < period_seconds) ts)) < max_calls"
      using assms(2) by simp
    then show "rate_limit_wrapper max_calls period_seconds fname func t' args kwargs ts ?env'
                  = (fst (func args kwargs (world ?env')),
                     filter (\<lambda>u. t' - u < period_seconds) ts @ [t'],
                     ?env'\<lparr>world := snd (func args kwargs (world ?env')), calls := calls ?env' + 1\<rparr>)"
      by (rule rl_admit)
  qed
  show "case rl_run max_calls period_seconds fname func args kwargs ts [] env of
        (rs, call_history, env') \<Rightarrow>
          rs = map (\<lambda>i. fst (func args kwargs (world_after func args kwargs i (world env)))) [0..<length ts]
          \<and> call_history = ts
          \<and> calls env' = calls env + length ts
          \<and> rate_limit_wrapper max_calls period_seconds fname func t args kwargs call_history env'
              = (Inl (Exn ExceptionC (RateLimitMsg fname (period_seconds - (t - hd ts)))), call_history, env')
          \<and> (\<forall>t'. period_seconds \<le> t' - hd ts \<longrightarrow>
                rate_limit_wrapper max_calls period_seconds fname func t' args kwargs call_history env'
                  = (fst (func args kwargs (world env')),
                     filter (\<lambda>u. t' - u < period_seconds) call_history @ [t'],
                     env'\<lparr>world := snd (func args kwargs (world env')), calls := calls env' + 1\<rparr>))"
    unfolding run using rej repl by simp
next
  show "\<forall>us e xs u ys.
           sorted us \<and> rl_admitted max_calls period_seconds fname func args kwargs us [] e = xs @ u # ys \<longrightarrow>
           int (length (filter (\<lambda>v. u - v < period_seconds) xs)) < max_calls"
  proof (intro allI impI)
    fix us :: "real list" and e :: "'b env" and xs u ys
    assume h: "sorted us \<and> rl_admitted max_calls period_seconds fname func args kwargs us [] e = xs @ u # ys"
    then have "us \<noteq> []" by auto
    then have s: "sorted (hd us # us)" using h by (cases us) auto
    have J: "\<forall>c' \<ge> hd us. filter (\<lambda>v. c' - v < period_seconds) [] = filter (\<lambda>v. c' - v < period_seconds) []"
      by simp
    from rl_window_invariant [OF s J conjunct2 [OF h]]
    show "int (length (filter (\<lambda>v. u - v < period_seconds) xs)) < max_calls" by simp
  qed
qed

theorem rate_limit_sliding_window_witness:
  "(1::int) \<le> 2 \<and> int (length [0, 1/10 :: real]) = 2 \<and> sorted ([0, 1/10] @ [2/10 :: real])
   \<and> (2/10 :: real) - hd [0, 1/10] < 1
   \<and> rl_run 2 1 ''successful_function'' (successful_function :: (int, nat, string) pyfun) [] [] [0, 1/10] [] (env0 0)
       = ([Inr ''success'', Inr ''success''], [0, 1/10], \<lparr>world = 2, calls = 2, sleeps = []\<rparr>)
   \<and> rate_limit_wrapper 2 1 ''successful_function'' (successful_function :: (int, nat, string) pyfun) (2/10) [] []
        [0, 1/10] \<lparr>world = 2, calls = 2, sleeps = []\<rparr>
       = (Inl (Exn ExceptionC (RateLimitMsg ''successful_function'' (8/10))), [0, 1/10], \<lparr>world = 2, calls = 2, sleeps = []\<rparr>)
   \<and> (1::real) \<le> 105/100 - hd [0, 1/10]
   \<and> rate_limit_wrapper 2 1 ''successful_function'' (successful_function :: (int, nat, string) pyfun) (105/100) [] []
        [0, 1/10] \<lparr>world = 2, calls = 2, sleeps = []\<rparr>
       = (Inr ''success'', [1/10, 105/100], \<lparr>world = 3, calls = 3, sleeps = []\<rparr>)
   \<and> sorted [0, 1/10, 2/10, 105/100 :: real]
   \<and> rl_admitted 2 1 ''successful_function'' (successful_function :: (int, nat, string) pyfun) [] []
        [0, 1/10, 2/10, 105/100] [] (env0 0) = [0, 1/10] @ 105/100 # []
   \<and> int (length (filter (\<lambda>v. 105/100 - v < (1::real)) [0, 1/10])) < 2"
proof -
  have h: "(1::int) \<le> 2" "int (length [0, 1/10 :: real]) = 2" "sorted ([0, 1/10] @ [2/10 :: real])"
    "(2/10 :: real) - hd [0, 1/10] < 1"
    by simp_all
  note T = rate_limit_sliding_window
    [where max_calls = 2 and ts = "[0, 1/10]" and t = "2/10" and period_seconds = 1
       and fname = "''successful_function''" and func = "successful_function :: (int, nat, string) pyfun"
       and args = "[]" and kwargs = "[]" and env = "env0 0", OF h]
  have adm: "sorted [0, 1/10, 2/10, 105/100 :: real]
     \<and> rl_admitted 2 1 ''successful_function'' (successful_function :: (int, nat, string) pyfun) [] []
        [0, 1/10, 2/10, 105/100] [] (env0 0) = [0, 1/10] @ 105/100 # []"
    by (simp add: rate_limit_wrapper_def invoke_def successful_function_succeeds env0_def)
  from T [THEN conjunct2] adm
  have win: "int (length (filter (\<lambda>v. 105/100 - v < (1::real)) [0, 1/10])) < 2"
    by blast
  from T [THEN conjunct1] h adm win
  show ?thesis
    by (simp add: rate_limit_wrapper_def invoke_def successful_function_succeeds env0_def upt_2)
qed

subsection \<open>Retrier\<close>

lemma retry_loop_always_failing:
  assumes fails: "\<forall>w. \<exists>e w'. func args kwargs w = (Inl e, w') \<and> isinstance_exn e E"
    and b: "0 \<le> backoff"
  shows "n = nat (m - a) \<Longrightarrow> a \<le> m \<Longrightarrow> 0 \<le> d \<Longrightarrow>
     retry_loop m backoff E func args kwargs [a..m] last_exc d env =
       (fst (func args kwargs (world_after func args kwargs n (world env))),
        env\<lparr>world := world_after func args kwargs (Suc n) (world env),
            calls := calls env + Suc n,
            sleeps := sleeps env @ map (\<lambda>i. d * backoff ^ i) [0..<n]\<rparr>)"
proof (induction n arbitrary: a last_exc d env)
  case 0
  then have am: "a = m" by simp
  from fails obtain e w' where f: "func args kwargs (world env) = (Inl e, w')" "isinstance_exn e E"
    by blast
  have "[a..m] = [m]" using am by (simp add: upto.simps)
  then show ?case using f am by (simp add: invoke_def)
next
  case (Suc n)
  then have lt: "a < m" and n: "n = nat (m - (a + 1))" and le: "a + 1 \<le> m" by auto
  have d: "0 \<le> d" and db: "0 \<le> d * backoff" using Suc.prems(3) b by simp_all
  from fails obtain e w' where f: "func args kwargs (world env) = (Inl e, w')" "isinstance_exn e E"
    by blast
  have up: "[a..m] = a # [a + 1..m]" using lt by (simp add: upto.simps)
  let ?env1 = "env\<lparr>world := w', calls := calls env + 1, sleeps := sleeps env @ [d]\<rparr>"
  have "retry_loop m backoff E func args kwargs [a..m] last_exc d env
      = retry_loop m backoff E func args kwargs [a + 1..m] (Some e) (d * backoff) ?env1"
    using f lt d by (simp add: up invoke_def time_sleep_def)
  also have "\<dots> = (fst (func args kwargs (world_after func args kwargs n (world ?env1))),
        ?env1\<lparr>world := world_after func args kwargs (Suc n) (world ?env1),
            calls := calls ?env1 + Suc n,
            sleeps := sleeps ?env1 @ map (\<lambda>i. (d * backoff) * backoff ^ i) [0..<n]\<rparr>)"
    using Suc.IH [OF n le db] .
  also have "\<dots> = (fst (func args kwargs (world_after func args kwargs (Suc n) (world env))),
        env\<lparr>world := world_after func args kwargs (Suc (Suc n)) (world env),
            calls := calls env + Suc (Suc n),
            sleeps := sleeps env @ map (\<lambda>i. d * backoff ^ i) [0..<Suc n]\<rparr>)"
    using f by (simp add: map_upt_Suc del: upt_Suc)
  finally show ?case .
qed

text \<open>Without a single attempt the loop body never runs and \<^verbatim>\<open>raise None\<close> is a TypeError.\<close>

lemma retry_no_attempts:
  assumes "max_attempts \<le> 0"
  shows "retry_wrapper max_attempts delay backoff exceptions func args kwargs env =
           (Inl (Exn TypeErrorC (TextMsg ''exceptions must derive from BaseException'')), env)"
  using assms by (simp add: retry_wrapper_def upto.simps)

text \<open>
  Claim C5. When every invocation of the wrapped operation raises an exception of a listed
  class, \<open>max_attempts\<close> is at least one and neither \<open>delay\<close> nor \<open>backoff\<close> is negative, the
  wrapper invokes it exactly \<open>max_attempts\<close> times, sleeps \<open>delay * backoff ^ i\<close> after the
  failed attempt \<open>i + 1\<close> for every attempt but the last, and raises exactly what the last
  invocation raised.
\<close>

theorem retry_exhaustion:
  assumes "1 \<le> max_attempts"
    and "\<forall>w. \<exists>e w'. func args kwargs w = (Inl e, w') \<and> isinstance_exn e exceptions"
    and "0 \<le> delay" and "0 \<le> backoff"
  shows "retry_wrapper max_attempts delay backoff exceptions func args kwargs env =
           (fst (func args kwargs (world_after func args kwargs (nat max_attempts - 1) (world env))),
            env\<lparr>world := world_after func args kwargs (nat max_attempts) (world env),
                calls := calls env + nat max_attempts,
                sleeps := sleeps env @ map (\<lambda>i. delay * backoff ^ i) [0..<nat max_attempts - 1]\<rparr>)"
proof -
  have n: "nat max_attempts - 1 = nat (max_attempts - 1)" by simp
  have s: "Suc (nat (max_attempts - 1)) = nat max_attempts" using assms(1) by simp
  show ?thesis
    unfolding retry_wrapper_def n
    using retry_loop_always_failing
      [where func = func and args = args and kwargs = kwargs and E = exceptions and a = 1 and m = max_attempts
         and backoff = backoff and last_exc = None and d = delay and env = env,
       OF assms(2) assms(4) refl _ assms(3)] assms(1)
    by (simp only: s)
qed

theorem retry_exhaustion_witness:
  "(1::int) \<le> 3 \<and> (0::real) \<le> 1/10 \<and> (0::real) \<le> 2
   \<and> retry_wrapper 3 (1/10) 2 [ExceptionC] (failing_function :: (int, unit, string) pyfun) [] [] (env0 ())
       = (Inl (Exn ConnectionErrorC (TextMsg ''Connection failed'')),
          \<lparr>world = (), calls = 3, sleeps = [1/10, 2/10]\<rparr>)"
proof -
  have fails: "\<forall>w. \<exists>e w'. (failing_function :: (int, unit, string) pyfun) [] [] w = (Inl e, w') \<and> isinstance_exn e [ExceptionC]"
    by (simp add: failing_function_fails isinstance_exn_def)
  have h: "(1::int) \<le> 3" by simp
  have d: "(0::real) \<le> 1/10" "(0::real) \<le> 2" by simp_all
  from retry_exhaustion
    [where max_attempts = 3 and func = "failing_function :: (int, unit, string) pyfun" and args = "[]"
       and kwargs = "[]" and exceptions = "[ExceptionC]" and delay = "1/10" and backoff = 2 and env = "env0 ()",
     OF h fails d]
  show ?thesis by (simp add: failing_function_fails env0_def upt_2)
qed

subsection \<open>Cache\<close>

lemma filter_distinct_key:
  assumes "distinct (map f xs)" and "k \<in> set xs"
  shows "filter (\<lambda>x. f k = f x) xs = [k]"
  using assms
proof (induction xs)
  case Nil
  then show ?case by simp
next
  case (Cons x xs)
  show ?case
  proof (cases "k = x")
    case True
    have "\<forall>y \<in> set xs. f x \<noteq> f y" using Cons.prems(1) by auto
    then have "filter (\<lambda>y. f x = f y) xs = []" by (simp add: filter_empty_conv)
    then show ?thesis using True by simp
  next
    case False
    then have k: "k \<in> set xs" using Cons.prems(2) by simp
    have "f x \<notin> f ` set xs" using Cons.prems(1) by simp
    then have "f k \<noteq> f x" using k by (metis imageI)
    then show ?thesis using Cons.IH k Cons.prems(1) by simp
  qed
qed

lemma sorted_items_permutation:
  assumes "mset kwargs1 = mset kwargs2" and "distinct (map fst kwargs1)"
  shows "sorted_items kwargs1 = sorted_items kwargs2"
proof -
  let ?ys = "sort_key fst kwargs2"
  have m: "mset ?ys = mset kwargs1" using assms(1) by simp
  have "mset (map fst ?ys) = mset (map fst kwargs1)" using m by (metis mset_map)
  then have d: "distinct (map fst ?ys)" using assms(2) by (metis mset_eq_imp_distinct_iff)
  have s: "set ?ys = set kwargs1" using m by (metis mset_eq_setD)
  have "sort_key fst kwargs1 = ?ys"
  proof (rule properties_for_sort_key)
    show "mset ?ys = mset kwargs1" by (rule m)
    show "sorted (map fst ?ys)" by simp
    fix k assume k: "k \<in> set ?ys"
    have "filter (\<lambda>x. fst k = fst x) ?ys = [k]" using d k by (rule filter_distinct_key)
    moreover have "filter (\<lambda>x. fst k = fst x) kwargs1 = [k]"
      using assms(2) k s by (intro filter_distinct_key) auto
    ultimately show "filter (\<lambda>x. fst k = fst x) ?ys = filter (\<lambda>x. fst k = fst x) kwargs1" by simp
  qed
  then show ?thesis by (simp add: sorted_items_def)
qed

lemma cache_key_permutation:
  assumes "mset kwargs1 = mset kwargs2" and "distinct (map fst kwargs1)"
  shows "cache_key repr args kwargs1 = cache_key repr args kwargs2"
  using sorted_items_permutation [OF assms] by (simp add: cache_key_def)

lemma cache_hit:
  assumes "cache_store cs (cache_key repr args kwargs) = Some v"
    and "cache_timestamps cs (cache_key repr args kwargs) = Some stored_at"
    and "now - stored_at < ttl"
  shows "cache_wrapper ttl repr func now args kwargs cs env = (Inr v, cs, env)"
  using assms by (simp add: cache_wrapper_def Let_def)

lemma cache_absent:
  assumes "cache_store cs (cache_key repr args kwargs) = None"
  shows "cache_wrapper ttl repr func now args kwargs cs env
           = cache_compute func now args kwargs (cache_key repr args kwargs) cs env"
  using assms by (simp add: cache_wrapper_def Let_def)

lemma cache_expired:
  assumes "cache_store cs (cache_key repr args kwargs) = Some v"
    and "cache_timestamps cs (cache_key repr args kwargs) = Some stored_at"
    and "ttl \<le> now - stored_at"
  shows "cache_wrapper ttl repr func now args kwargs cs env
           = cache_compute func now args kwargs (cache_key repr args kwargs)
               (cs\<lparr>cache_store := (cache_store cs)(cache_key repr args kwargs := None),
                   cache_timestamps := (cache_timestamps cs)(cache_key repr args kwargs := None)\<rparr>) env"
  using assms by (simp add: cache_wrapper_def Let_def)

lemma cache_compute_returns:
  assumes "func args kwargs (world env) = (Inr v, w')"
  shows "cache_compute func now args kwargs key cs env =
           (Inr v,
            cs\<lparr>cache_store := (cache_store cs)(key \<mapsto> v), cache_timestamps := (cache_timestamps cs)(key \<mapsto> now)\<rparr>,
            env\<lparr>world := w', calls := calls env + 1\<rparr>)"
  using assms by (simp add: cache_compute_def invoke_def)

lemma cache_compute_invokes:
  "case cache_compute func now args kwargs key cs env of
     (r, cs', env') \<Rightarrow>
       r = fst (func args kwargs (world env))
       \<and> env' = env\<lparr>world := snd (func args kwargs (world env)), calls := calls env + 1\<rparr>
       \<and> (\<forall>v. r = Inr v \<longrightarrow> cache_store cs' key = Some v \<and> cache_timestamps cs' key = Some now)"
  by (auto simp: cache_compute_def invoke_def split: prod.splits sum.splits)

lemma cached_function_5: "cached_function [5] [] n = (Inr 10, n + 1)"
  by (simp add: cached_function_def signature_bind_def)

lemma cache_step_never_fresh:
  assumes "ttl \<le> 0"
    and "\<forall>k s. cache_timestamps cs k = Some s \<longrightarrow> s \<le> now"
    and "dom (cache_store cs) \<subseteq> dom (cache_timestamps cs)"
  shows "case cache_wrapper ttl repr func now args kwargs cs env of
           (r, cs', env') \<Rightarrow>
             (r, env') = invoke func args kwargs env
             \<and> (\<forall>k s. cache_timestamps cs' k = Some s \<longrightarrow> s \<le> now)
             \<and> dom (cache_store cs') \<subseteq> dom (cache_timestamps cs')"
proof (cases "cache_store cs (cache_key repr args kwargs)")
  case None
  then show ?thesis
    using assms(2,3)
    by (auto simp: cache_wrapper_def cache_compute_def Let_def split: prod.splits sum.splits)
next
  case (Some v)
  then obtain s where s: "cache_timestamps cs (cache_key repr args kwargs) = Some s"
    using assms(3) by blast
  then have "s \<le> now" using assms(2) by blast
  then have "\<not> now - s < ttl" using assms(1) by simp
  then show ?thesis
    using Some s assms(2,3)
    by (auto simp: cache_wrapper_def cache_compute_def Let_def split: prod.splits sum.splits if_splits)
qed

lemma cache_run_never_fresh:
  assumes "ttl \<le> 0"
  shows "sorted (c # map fst cl) \<Longrightarrow>
     \<forall>k s. cache_timestamps cs k = Some s \<longrightarrow> s \<le> c \<Longrightarrow>
     dom (cache_store cs) \<subseteq> dom (cache_timestamps cs) \<Longrightarrow>
     fst (cache_run ttl repr func cl cs env) = fst (call_run func cl env)
     \<and> snd (snd (cache_run ttl repr func cl cs env)) = snd (call_run func cl env)"
proof (induction cl arbitrary: c cs env)
  case Nil
  then show ?case by simp
next
  case (Cons x cl)
  have cx: "c \<le> fst x" and srt: "sorted (fst x # map fst cl)" using Cons.prems(1) by auto
  have wf: "\<forall>k s. cache_timestamps cs k = Some s \<longrightarrow> s \<le> fst x"
    using Cons.prems(2) cx by (meson order_trans)
  obtain r cs1 env1 where w: "cache_wrapper ttl repr func (fst x) (fst (snd x)) (snd (snd x)) cs env = (r, cs1, env1)"
    by (metis prod_cases3)
  from cache_step_never_fresh
    [where repr = repr and func = func and args = "fst (snd x)" and kwargs = "snd (snd x)" and env = env,
     OF assms wf Cons.prems(3)]
  have inv: "(r, env1) = invoke func (fst (snd x)) (snd (snd x)) env"
    and wf1: "\<forall>k s. cache_timestamps cs1 k = Some s \<longrightarrow> s \<le> fst x"
    and dom1: "dom (cache_store cs1) \<subseteq> dom (cache_timestamps cs1)"
    unfolding w by simp_all
  from Cons.IH [OF srt wf1 dom1, of env1]
  show ?case using w inv [symmetric] by (auto split: prod.splits)
qed

lemma call_run_calls: "calls (snd (call_run func cl env)) = calls env + length cl"
proof (induction cl arbitrary: env)
  case Nil
  show ?case by simp
next
  case (Cons x cl)
  obtain r env1 where i: "invoke func (fst (snd x)) (snd (snd x)) env = (r, env1)"
    by (metis prod.collapse)
  then have c1: "calls env1 = calls env + 1"
    by (auto simp: invoke_def split: prod.splits)
  have "snd (call_run func (x # cl) env) = snd (call_run func cl env1)"
    using i by (simp split: prod.splits)
  then show ?case using Cons.IH [of env1] c1 by simp
qed

lemma test_function_kw:
  "test_function [] [(''y'', 3), (''x'', 4)] w = (Inr 7, w)"
  by (simp add: test_function_def signature_bind_def)

text \<open>
  Claim C6. With a positive ttl, a first call that finds no entry under its key and whose
  computation returns \<open>v\<close> invokes the wrapped operation once and stores \<open>v\<close> with the clock
  reading \<open>t1\<close>; a second call with the same arguments at \<open>t2\<close>, less than ttl later, returns
  \<open>v\<close> and leaves cache and environment untouched, so the operation has run exactly once.
  A call at \<open>t3\<close>, ttl or more after \<open>t1\<close>, invokes the operation again, returns what it
  returns, and a returned value is stored with timestamp \<open>t3\<close>.
\<close>

theorem cache_hit_and_expiry:
  assumes "0 < ttl_seconds"
    and "cache_store cs (cache_key repr args kwargs) = None"
    and "func args kwargs (world env) = (Inr v, w')"
    and "t1 \<le> t2" and "t2 - t1 < ttl_seconds"
  shows
    "case cache_wrapper ttl_seconds repr func t1 args kwargs cs env of
       (r1, cs1, env1) \<Rightarrow>
         r1 = Inr v \<and> calls env1 = calls env + 1
         \<and> cache_store cs1 (cache_key repr args kwargs) = Some v
         \<and> cache_timestamps cs1 (cache_key repr args kwargs) = Some t1
         \<and> cache_wrapper ttl_seconds repr func t2 args kwargs cs1 env1 = (Inr v, cs1, env1)
         \<and> (\<forall>t3. ttl_seconds \<le> t3 - t1 \<longrightarrow>
              (case cache_wrapper ttl_seconds repr func t3 args kwargs cs1 env1 of
                 (r3, cs3, env3) \<Rightarrow>
                   r3 = fst (func args kwargs (world env1))
                   \<and> calls env3 = calls env1 + 1
                   \<and> (\<forall>v3. r3 = Inr v3 \<longrightarrow>
                         cache_store cs3 (cache_key repr args kwargs) = Some v3
                         \<and> cache_timestamps cs3 (cache_key repr args kwargs) = Some t3)))"
proof -
  let ?key = "cache_key repr args kwargs"
  let ?cs1 = "cs\<lparr>cache_store := (cache_store cs)(?key \<mapsto> v), cache_timestamps := (cache_timestamps cs)(?key \<mapsto> t1)\<rparr>"
  let ?env1 = "env\<lparr>world := w', calls := calls env + 1\<rparr>"
  have first: "cache_wrapper ttl_seconds repr func t1 args kwargs cs env = (Inr v, ?cs1, ?env1)"
    unfolding cache_absent [OF assms(2)] using assms(3) by (simp add: cache_compute_def invoke_def)
  have st: "cache_store ?cs1 ?key = Some v" "cache_timestamps ?cs1 ?key = Some t1" by simp_all
  have second: "cache_wrapper ttl_seconds repr func t2 args kwargs ?cs1 ?env1 = (Inr v, ?cs1, ?env1)"
    using st assms(5) by (rule cache_hit)
  have third: "\<forall>t3. ttl_seconds \<le> t3 - t1 \<longrightarrow>
              (case cache_wrapper ttl_seconds repr func t3 args kwargs ?cs1 ?env1 of
                 (r3, cs3, env3) \<Rightarrow>
                   r3 = fst (func args kwargs (world ?env1))
                   \<and> calls env3 = calls ?env1 + 1
                   \<and> (\<forall>v3. r3 = Inr v3 \<longrightarrow>
                         cache_store cs3 ?key = Some v3 \<and> cache_timestamps cs3 ?key = Some t3))"
  proof (intro allI impI)
    fix t3 assume "ttl_seconds \<le> t3 - t1"
    with st have e: "cache_wrapper ttl_seconds repr func t3 args kwargs ?cs1 ?env1
           = cache_compute func t3 args kwargs ?key
               (?cs1\<lparr>cache_store := (cache_store ?cs1)(?key := None),
                   cache_timestamps := (cache_timestamps ?cs1)(?key := None)\<rparr>) ?env1"
      by (rule cache_expired)
    show "case cache_wrapper ttl_seconds repr func t3 args kwargs ?cs1 ?env1 of
                 (r3, cs3, env3) \<Rightarrow>
                   r3 = fst (func args kwargs (world ?env1))
                   \<and> calls env3 = calls ?env1 + 1
                   \<and> (\<forall>v3. r3 = Inr v3 \<longrightarrow>
                         cache_store cs3 ?key = Some v3 \<and> cache_timestamps cs3 ?key = Some t3)"
      unfolding e
      using cache_compute_invokes [where func = func and now = t3 and args = args and kwargs = kwargs
          and key = "?key" and env = "?env1"
          and cs = "?cs1\<lparr>cache_store := (cache_store ?cs1)(?key := None),
                   cache_timestamps := (cache_timestamps ?cs1)(?key := None)\<rparr>"]
      by (auto split: prod.splits)
  qed
  show ?thesis unfolding first using st second third by simp
qed

theorem cache_hit_and_expiry_witness:
  "(0::real) < 60 \<and> cache_store (cache_empty :: int cache_state) (cache_key repr_int [5] []) = None
   \<and> cached_function [5] [] (world (env0 0)) = (Inr 10, 1)
   \<and> (0::real) \<le> 1 \<and> (1::real) - 0 < 60
   \<and> cache_wrapper 60 repr_int cached_function 0 [5] [] cache_empty (env0 0)
       = (Inr 10,
          \<lparr>cache_store = [cache_key repr_int [5] [] \<mapsto> 10], cache_timestamps = [cache_key repr_int [5] [] \<mapsto> 0]\<rparr>,
          \<lparr>world = 1, calls = 1, sleeps = []\<rparr>)
   \<and> cache_wrapper 60 repr_int cached_function 1 [5] []
         \<lparr>cache_store = [cache_key repr_int [5] [] \<mapsto> 10], cache_timestamps = [cache_key repr_int [5] [] \<mapsto> 0]\<rparr>
         \<lparr>world = 1, calls = 1, sleeps = []\<rparr>
       = (Inr 10,
          \<lparr>cache_store = [cache_key repr_int [5] [] \<mapsto> 10], cache_timestamps = [cache_key repr_int [5] [] \<mapsto> 0]\<rparr>,
          \<lparr>world = 1, calls = 1, sleeps = []\<rparr>)
   \<and> (60::real) \<le> 60 - 0
   \<and> cache_wrapper 60 repr_int cached_function 60 [5] []
         \<lparr>cache_store = [cache_key repr_int [5] [] \<mapsto> 10], cache_timestamps = [cache_key repr_int [5] [] \<mapsto> 0]\<rparr>
         \<lparr>world = 1, calls = 1, sleeps = []\<rparr>
       = (Inr 10,
          \<lparr>cache_store = [cache_key repr_int [5] [] \<mapsto> 10], cache_timestamps = [cache_key repr_int [5] [] \<mapsto> 60]\<rparr>,
          \<lparr>world = 2, calls = 2, sleeps = []\<rparr>)"
proof -
  have h: "(0::real) < 60" "cache_store (cache_empty :: int cache_state) (cache_key repr_int [5] []) = None"
    "cached_function [5] [] (world (env0 0)) = (Inr 10, 1)" "(0::real) \<le> 1" "(1::real) - 0 < 60"
    by (simp_all add: cache_empty_def cached_function_5 env0_def)
  let ?cs1 = "\<lparr>cache_store = [cache_key repr_int [5] [] \<mapsto> 10::int],
               cache_timestamps = [cache_key repr_int [5] [] \<mapsto> 0::real]\<rparr>"
  let ?env1 = "\<lparr>world = 1::nat, calls = 1, sleeps = []\<rparr>"
  have first: "cache_wrapper 60 repr_int cached_function 0 [5] [] cache_empty (env0 0) = (Inr 10, ?cs1, ?env1)"
    by (simp add: cache_wrapper_def cache_compute_def invoke_def cache_empty_def cached_function_5 env0_def Let_def)
  from cache_hit_and_expiry
    [where ttl_seconds = 60 and cs = "cache_empty :: int cache_state" and repr = repr_int and args = "[5]"
       and kwargs = "[]" and func = cached_function and env = "env0 0" and v = 10 and w' = 1
       and ?t1.0 = 0 and ?t2.0 = 1, OF h]
  have second: "cache_wrapper 60 repr_int cached_function 1 [5] [] ?cs1 ?env1 = (Inr 10, ?cs1, ?env1)"
    unfolding first by simp
  have fourth: "cache_wrapper 60 repr_int cached_function 60 [5] [] ?cs1 ?env1
       = (Inr 10,
          \<lparr>cache_store = [cache_key repr_int [5] [] \<mapsto> 10], cache_timestamps = [cache_key repr_int [5] [] \<mapsto> 60]\<rparr>,
          \<lparr>world = 2, calls = 2, sleeps = []\<rparr>)"
    by (simp add: cache_wrapper_def cache_compute_def invoke_def cached_function_5 Let_def)
  show ?thesis using h first second fourth by simp
qed

text \<open>
  Claim C8. Two keyword lists that are permutations of each other, with distinct names,
  give the same cache key; so after a first call that stored its result, a second call
  with the permuted keywords less than ttl later returns the stored value and leaves
  cache and environment untouched: the wrapped operation is not invoked.
\<close>

theorem cache_key_keyword_order_independent:
  assumes "mset kwargs1 = mset kwargs2" and "distinct (map fst kwargs1)"
    and "cache_store cs (cache_key repr args kwargs1) = None"
    and "func args kwargs1 (world env) = (Inr v, w')"
    and "t2 - t1 < ttl_seconds"
  shows
    "cache_key repr args kwargs1 = cache_key repr args kwargs2
     \<and> (case cache_wrapper ttl_seconds repr func t1 args kwargs1 cs env of
          (r1, cs1, env1) \<Rightarrow>
            r1 = Inr v
            \<and> cache_wrapper ttl_seconds repr func t2 args kwargs2 cs1 env1 = (Inr v, cs1, env1))"
proof -
  have k: "cache_key repr args kwargs1 = cache_key repr args kwargs2"
    using assms(1,2) by (rule cache_key_permutation)
  let ?key = "cache_key repr args kwargs1"
  let ?cs1 = "cs\<lparr>cache_store := (cache_store cs)(?key \<mapsto> v), cache_timestamps := (cache_timestamps cs)(?key \<mapsto> t1)\<rparr>"
  let ?env1 = "env\<lparr>world := w', calls := calls env + 1\<rparr>"
  have first: "cache_wrapper ttl_seconds repr func t1 args kwargs1 cs env = (Inr v, ?cs1, ?env1)"
    unfolding cache_absent [OF assms(3)] using assms(4) by (simp add: cache_compute_def invoke_def)
  have st: "cache_store ?cs1 (cache_key repr args kwargs2) = Some v"
    "cache_timestamps ?cs1 (cache_key repr args kwargs2) = Some t1"
    using k by simp_all
  have second: "cache_wrapper ttl_seconds repr func t2 args kwargs2 ?cs1 ?env1 = (Inr v, ?cs1, ?env1)"
    using st assms(5) by (rule cache_hit)
  show ?thesis unfolding first using k second by simp
qed

theorem cache_key_keyword_order_independent_witness:
  "mset [(''y'', 3::int), (''x'', 4)] = mset [(''x'', 4), (''y'', 3)]
   \<and> distinct (map fst [(''y'', 3::int), (''x'', 4)])
   \<and> cache_key repr_int [] [(''y'', 3), (''x'', 4)] = cache_key repr_int [] [(''x'', 4), (''y'', 3)]
   \<and> fst (cache_wrapper 60 repr_int test_function 0 [] [(''y'', 3), (''x'', 4)] cache_empty (env0 ())) = Inr 7
   \<and> (let first = snd (cache_wrapper 60 repr_int test_function 0 [] [(''y'', 3), (''x'', 4)] cache_empty (env0 ()))
      in cache_wrapper 60 repr_int test_function 1 [] [(''x'', 4), (''y'', 3)] (fst first) (snd first)
           = (Inr 7, first))"
proof -
  have h: "mset [(''y'', 3::int), (''x'', 4)] = mset [(''x'', 4), (''y'', 3)]"
    "distinct (map fst [(''y'', 3::int), (''x'', 4)])"
    "cache_store (cache_empty :: int cache_state) (cache_key repr_int [] [(''y'', 3), (''x'', 4)]) = None"
    "test_function [] [(''y'', 3), (''x'', 4)] (world (env0 ())) = (Inr 7, ())"
    "(1::real) - 0 < 60"
    by (simp_all add: cache_empty_def test_function_kw)
  from cache_key_keyword_order_independent
    [where ?kwargs1.0 = "[(''y'', 3), (''x'', 4)]" and ?kwargs2.0 = "[(''x'', 4), (''y'', 3)]"
       and cs = "cache_empty :: int cache_state" and repr = repr_int and args = "[]" and func = test_function
       and env = "env0 ()" and v = 7 and w' = "()" and ?t1.0 = 0 and ?t2.0 = 1 and ttl_seconds = 60, OF h]
  show ?thesis
    using h(1,2) by (auto simp: Let_def split: prod.splits)
qed

text \<open>
  Claim C9. With a ttl of zero or less and a clock that does not run backwards, a cache
  that starts empty never answers from its store: the results and the final environment
  of any run are those of the same calls on the undecorated callable, one invocation per
  call. More generally every call on a cache whose timestamps are not in the future
  invokes the wrapped operation and returns its result.
\<close>

theorem cache_nonpositive_ttl_never_serves:
  assumes "ttl_seconds \<le> 0"
  shows
    "(sorted (map fst cl) \<longrightarrow>
        fst (cache_run ttl_seconds repr func cl cache_empty env) = fst (call_run func cl env)
        \<and> snd (snd (cache_run ttl_seconds repr func cl cache_empty env)) = snd (call_run func cl env)
        \<and> calls (snd (snd (cache_run ttl_seconds repr func cl cache_empty env))) = calls env + length cl)
     \<and> ((\<forall>k s. cache_timestamps cs k = Some s \<longrightarrow> s \<le> now)
          \<and> dom (cache_store cs) \<subseteq> dom (cache_timestamps cs) \<longrightarrow>
        (case cache_wrapper ttl_seconds repr func now args kwargs cs e of
           (r, cs', e') \<Rightarrow> (r, e') = invoke func args kwargs e \<and> calls e' = calls e + 1))"
proof (intro conjI)
  show "sorted (map fst cl) \<longrightarrow>
        fst (cache_run ttl_seconds repr func cl cache_empty env) = fst (call_run func cl env)
        \<and> snd (snd (cache_run ttl_seconds repr func cl cache_empty env)) = snd (call_run func cl env)
        \<and> calls (snd (snd (cache_run ttl_seconds repr func cl cache_empty env))) = calls env + length cl"
  proof
    assume s: "sorted (map fst cl)"
    show "fst (cache_run ttl_seconds repr func cl cache_empty env) = fst (call_run func cl env)
        \<and> snd (snd (cache_run ttl_seconds repr func cl cache_empty env)) = snd (call_run func cl env)
        \<and> calls (snd (snd (cache_run ttl_seconds repr func cl cache_empty env))) = calls env + length cl"
    proof (cases cl)
      case Nil
      then show ?thesis by simp
    next
      case (Cons x xs)
      have s': "sorted (fst x # map fst cl)" using s Cons by simp
      have "fst (cache_run ttl_seconds repr func cl cache_empty env) = fst (call_run func cl env)
         \<and> snd (snd (cache_run ttl_seconds repr func cl cache_empty env)) = snd (call_run func cl env)"
        by (rule cache_run_never_fresh [OF assms s']) (simp_all add: cache_empty_def)
      then show ?thesis by (simp add: call_run_calls)
    qed
  qed
next
  show "(\<forall>k s. cache_timestamps cs k = Some s \<longrightarrow> s \<le> now)
          \<and> dom (cache_store cs) \<subseteq> dom (cache_timestamps cs) \<longrightarrow>
        (case cache_wrapper ttl_seconds repr func now args kwargs cs e of
           (r, cs', e') \<Rightarrow> (r, e') = invoke func args kwargs e \<and> calls e' = calls e + 1)"
  proof
    assume "(\<forall>k s. cache_timestamps cs k = Some s \<longrightarrow> s \<le> now) \<and> dom (cache_store cs) \<subseteq> dom (cache_timestamps cs)"
    then have a: "\<forall>k s. cache_timestamps cs k = Some s \<longrightarrow> s \<le> now" and b: "dom (cache_store cs) \<subseteq> dom (cache_timestamps cs)"
      by simp_all
    from cache_step_never_fresh
      [where repr = repr and func = func and args = args and kwargs = kwargs and env = e, OF assms a b]
    show "case cache_wrapper ttl_seconds repr func now args kwargs cs e of
             (r, cs', e') \<Rightarrow> (r, e') = invoke func args kwargs e \<and> calls e' = calls e + 1"
      by (auto simp: invoke_def split: prod.splits)
  qed
qed

theorem cache_nonpositive_ttl_never_serves_witness:
  "(0::real) \<le> 0 \<and> sorted (map fst [(0::real, [5::int], []), (1, [5], [])])
   \<and> cache_run 0 repr_int cached_function [(0, [5], []), (1, [5], [])] cache_empty (env0 0)
       = ([Inr 10, Inr 10],
          snd (cache_run 0 repr_int cached_function [(0, [5], []), (1, [5], [])] cache_empty (env0 0)))
   \<and> snd (snd (cache_run 0 repr_int cached_function [(0, [5], []), (1, [5], [])] cache_empty (env0 0)))
       = \<lparr>world = 2, calls = 2, sleeps = []\<rparr>
   \<and> \<not> (\<exists>k s. cache_timestamps \<lparr>cache_store = [cache_key repr_int [5] [] \<mapsto> 10::int],
                                  cache_timestamps = [cache_key repr_int [5] [] \<mapsto> 0]\<rparr> k = Some s \<and> 1 < s)
   \<and> dom (cache_store \<lparr>cache_store = [cache_key repr_int [5] [] \<mapsto> 10::int],
                       cache_timestamps = [cache_key repr_int [5] [] \<mapsto> 0]\<rparr>)
       \<subseteq> dom (cache_timestamps \<lparr>cache_store = [cache_key repr_int [5] [] \<mapsto> 10::int],
                       cache_timestamps = [cache_key repr_int [5] [] \<mapsto> 0]\<rparr>)
   \<and> fst (cache_wrapper 0 repr_int cached_function 1 [5] []
          \<lparr>cache_store = [cache_key repr_int [5] [] \<mapsto> 10], cache_timestamps = [cache_key repr_int [5] [] \<mapsto> 0]\<rparr>
          (env0 1)) = Inr 10
   \<and> snd (snd (cache_wrapper 0 repr_int cached_function 1 [5] []
          \<lparr>cache_store = [cache_key repr_int [5] [] \<mapsto> 10], cache_timestamps = [cache_key repr_int [5] [] \<mapsto> 0]\<rparr>
          (env0 1))) = \<lparr>world = 2, calls = 1, sleeps = []\<rparr>"
proof -
  have h: "(0::real) \<le> 0" by simp
  have s: "sorted (map fst [(0::real, [5::int], []), (1, [5], [])])" by simp
  let ?cs = "\<lparr>cache_store = [cache_key repr_int [5] [] \<mapsto> 10::int],
              cache_timestamps = [cache_key repr_int [5] [] \<mapsto> 0::real]\<rparr>"
  have wf: "(\<forall>k s. cache_timestamps ?cs k = Some s \<longrightarrow> s \<le> 1)
            \<and> dom (cache_store ?cs) \<subseteq> dom (cache_timestamps ?cs)"
    by (simp split: if_splits)
  have run: "cache_run 0 repr_int cached_function [(0, [5], []), (1, [5], [])] cache_empty (env0 0)
       = ([Inr 10, Inr 10],
          snd (cache_run 0 repr_int cached_function [(0, [5], []), (1, [5], [])] cache_empty (env0 0)))
   \<and> snd (snd (cache_run 0 repr_int cached_function [(0, [5], []), (1, [5], [])] cache_empty (env0 0)))
       = \<lparr>world = 2, calls = 2, sleeps = []\<rparr>"
    using cache_nonpositive_ttl_never_serves
      [where ttl_seconds = 0 and cl = "[(0, [5], []), (1, [5], [])]" and repr = repr_int and func = cached_function
         and env = "env0 0", OF h, THEN conjunct1] s
    by (auto simp: invoke_def cached_function_5 env0_def split: prod.splits)
  have step: "fst (cache_wrapper 0 repr_int cached_function 1 [5] [] ?cs (env0 1)) = Inr 10
     \<and> snd (snd (cache_wrapper 0 repr_int cached_function 1 [5] [] ?cs (env0 1))) = \<lparr>world = 2, calls = 1, sleeps = []\<rparr>"
    using cache_nonpositive_ttl_never_serves
      [where ttl_seconds = 0 and repr = repr_int and func = cached_function and cs = ?cs and now = 1
         and args = "[5]" and kwargs = "[]" and e = "env0 1", OF h, THEN conjunct2] wf
    by (auto simp: invoke_def cached_function_5 env0_def split: prod.splits)
  have wf': "\<not> (\<exists>k s. cache_timestamps ?cs k = Some s \<and> 1 < s)"
    by (simp split: if_splits)
  show ?thesis using h s wf wf' run step by blast
qed

subsection \<open>Validator\<close>

text \<open>
  Claim C2. The call \<^verbatim>\<open>validated_function(5)\<close> of the test suite, under the validator
  \<^verbatim>\<open>x > 0\<close>: the argument is valid and the undecorated function returns 10, but the wrapper
  raises AttributeError from \<^verbatim>\<open>functools.signature\<close> and never invokes it. The same holds
  for every call of every wrapped function.
\<close>

theorem validate_input_raises_attribute_error:
  "validate_input_wrapper [(''x'', \<lambda>v. 0 < v)] repr_int [(''x'', None)] validated_function [5] [] (env0 ())
     = (Inl (Exn AttributeErrorC (NoAttributeMsg ''functools'' ''signature'')), env0 ())
   \<and> validated_function [5] [] () = (Inr 10, ())
   \<and> validate_input_wrapper validators str_of params func args kwargs env
     = (Inl (Exn AttributeErrorC (NoAttributeMsg ''functools'' ''signature'')), env)"
  by (simp add: validate_input_wrapper_def functools_getattr_def functools_names_def
      validated_function_def signature_bind_def)

end
